theory Spec2Isabelle
  imports Main
begin

section \<open>Python string primitives used by both scripts\<close>

text \<open>
  Python \<open>str\<close> values are modelled as \<open>string\<close>; a \<open>char\<close> stands for the
  code point of the same number (code points 0 to 255). The functions below follow
  CPython on that range: \<open>str.isspace\<close> and the regex class \<open>\s\<close> hold for
  9..13, 28..32, 133 and 160; \<open>str.lower\<close> moves A..Z and the Latin-1 capitals
  192..222 (without 215) up by 32.
\<close>

definition is_space :: "char \<Rightarrow> bool" where
  "is_space c =
     (let n = (of_char c :: nat)
      in (9 \<le> n \<and> n \<le> 13) \<or> (28 \<le> n \<and> n \<le> 32) \<or> n = 133 \<or> n = 160)"

definition strip :: "string \<Rightarrow> string" where
  "strip s = rev (dropWhile is_space (rev (dropWhile is_space s)))"

definition lower_char :: "char \<Rightarrow> char" where
  "lower_char c =
     (let n = (of_char c :: nat)
      in if (65 \<le> n \<and> n \<le> 90) \<or> (192 \<le> n \<and> n \<le> 222 \<and> n \<noteq> 215)
         then char_of (n + 32) else c)"

definition lower :: "string \<Rightarrow> string" where
  "lower s = map lower_char s"

definition replace_char :: "char \<Rightarrow> char \<Rightarrow> string \<Rightarrow> string" where
  "replace_char a b s = map (\<lambda>c. if c = a then b else c) s"

definition startswith :: "string \<Rightarrow> string \<Rightarrow> bool" where
  "startswith s pre = (take (length pre) s = pre)"

definition endswith :: "string \<Rightarrow> string \<Rightarrow> bool" where
  "endswith s suf = (length suf \<le> length s \<and> drop (length s - length suf) s = suf)"

text \<open>\<open>contains sub s\<close> is Python's \<open>sub in s\<close>.\<close>

fun contains :: "string \<Rightarrow> string \<Rightarrow> bool" where
  "contains sub [] = (sub = [])"
| "contains sub (c # cs) = (startswith (c # cs) sub \<or> contains sub cs)"

text \<open>
  \<open>sub_runs p r s\<close> is \<open>re.sub('[...]+', r, s)\<close> for a character class \<open>p\<close> and a
  one-character replacement: every maximal run of class characters becomes one \<open>r\<close>.
\<close>

function sub_runs :: "(char \<Rightarrow> bool) \<Rightarrow> char \<Rightarrow> string \<Rightarrow> string" where
  "sub_runs p r [] = []"
| "sub_runs p r (c # cs) =
     (if p c then r # sub_runs p r (dropWhile p cs) else c # sub_runs p r cs)"
  by pat_completeness auto
termination
  by (relation "measure (\<lambda>(p, r, s). length s)")
     (auto simp: le_imp_less_Suc length_dropWhile_le)

definition CR :: char where "CR = CHR 0x0D"
definition LF :: char where "LF = CHR 0x0A"
definition SP :: char where "SP = CHR 0x20"

text \<open>The class \<open>[\/\\\:\*\?"<>\|]\<close> of both \<open>safe_filename\<close> functions.\<close>

definition is_forbidden :: "char \<Rightarrow> bool" where
  "is_forbidden c =
     (c = CHR ''/'' \<or> c = CHR 0x5C \<or> c = CHR '':'' \<or> c = CHR ''*'' \<or> c = CHR ''?'' \<or>
      c = CHR 0x22 \<or> c = CHR ''<'' \<or> c = CHR ''>'' \<or> c = CHR ''|'')"

section \<open>Filename derivation\<close>

subsection \<open>sebi_make_two_csvs.py: safe_filename\<close>

definition safe_filename_csv :: "string \<Rightarrow> string \<Rightarrow> string" where
  "safe_filename_csv s0 fallback =
     (let s1 = (if s0 = [] then fallback else s0);
          s2 = replace_char LF SP (replace_char CR SP (strip s1));
          s3 = sub_runs is_forbidden (CHR ''_'') s2;
          s4 = sub_runs is_space SP s3;
          base = strip (take 150 s4)
      in if \<not> endswith (lower base) ''.pdf'' then base @ ''.pdf'' else base)"

subsection \<open>sebi_update_and_download_missing.py: safe_filename, choose_name_for_pdf\<close>

definition safe_filename_upd :: "string \<Rightarrow> string \<Rightarrow> string" where
  "safe_filename_upd s0 fallback =
     (let s1 = replace_char CR SP (replace_char LF SP (strip s0));
          s2 = sub_runs is_forbidden (CHR ''_'') s1;
          s3 = sub_runs is_space SP s2
      in if s3 = [] then fallback else take 180 s3)"

text \<open>
  \<open>choose_name_for_pdf\<close> starts from \<open>Path(unquote(urlparse(pdf_url).path)).name\<close>, the
  last component of the URL's decoded path, computed by the standard library; the model
  takes that component as the argument \<open>name\<close>.
\<close>

definition choose_name_for_pdf :: "string \<Rightarrow> string \<Rightarrow> string" where
  "choose_name_for_pdf name entry_title =
     (if name \<noteq> [] \<and> CHR ''.'' \<in> set name
      then safe_filename_upd name (safe_filename_upd entry_title ''document'')
      else safe_filename_upd entry_title ''document'' @ ''.pdf'')"

text \<open>
  \<open>str(PDF_DIR / suggested_name)\<close> for \<open>PDF_DIR = Path("pdfs")\<close> on a name without a
  slash: pathlib drops a component that is a single dot. The caller then appends
  \<open>.pdf\<close> unless the lower-cased path already ends with it (lines 292 to 294).
\<close>

definition pdf_dir_join :: "string \<Rightarrow> string" where
  "pdf_dir_join suggested_name =
     (if suggested_name = [] \<or> suggested_name = ''.'' then ''pdfs''
      else ''pdfs/'' @ suggested_name)"

definition dest_path_for :: "string \<Rightarrow> string \<Rightarrow> string" where
  "dest_path_for name entry_title =
     (let suggested_name = choose_name_for_pdf name entry_title;
          dest_path = pdf_dir_join suggested_name
      in if \<not> endswith (lower dest_path) ''.pdf'' then dest_path @ ''.pdf'' else dest_path)"

subsection \<open>Notions used to state the filename properties\<close>

text \<open>A character allowed in a derived file name: not in the forbidden class, no newline.\<close>

definition name_char_ok :: "char \<Rightarrow> bool" where
  "name_char_ok c = (\<not> is_forbidden c \<and> c \<noteq> LF \<and> c \<noteq> CR)"

text \<open>The truncated, stripped base of \<open>safe_filename\<close> (make_two_csvs), before the suffix test.\<close>

definition csv_base :: "string \<Rightarrow> string \<Rightarrow> string" where
  "csv_base s0 fallback =
     strip (take 150 (sub_runs is_space SP (sub_runs is_forbidden (CHR ''_'')
       (replace_char LF SP (replace_char CR SP (strip (if s0 = [] then fallback else s0)))))))"

text \<open>
  Runs in normal form: every character of the class is the replacement character and is
  followed by a character outside the class. A clean name is not empty, begins and ends
  outside the whitespace class, has no forbidden character, and has its whitespace in
  normal form (single spaces only).
\<close>

fun runs_normal :: "(char \<Rightarrow> bool) \<Rightarrow> char \<Rightarrow> string \<Rightarrow> bool" where
  "runs_normal p r [] = True"
| "runs_normal p r [c] = (p c \<longrightarrow> c = r)"
| "runs_normal p r (c # d # cs) = ((p c \<longrightarrow> c = r \<and> \<not> p d) \<and> runs_normal p r (d # cs))"

definition clean_name :: "string \<Rightarrow> bool" where
  "clean_name s =
     (s \<noteq> [] \<and> \<not> is_space (hd s) \<and> \<not> is_space (last s) \<and>
      (\<forall>c\<in>set s. \<not> is_forbidden c) \<and> runs_normal is_space SP s)"

section \<open>What the scripts take from outside\<close>

text \<open>
  The standard-library functions the scripts call and the model does not compute are
  parameters: \<open>urllib.parse.urljoin\<close>, \<open>urllib.parse.unquote\<close>, the hex digest of
  \<open>hashlib.sha1\<close>, and \<open>Path(unquote(urlparse(u).path)).name\<close>.
\<close>

record stdlib =
  urljoin :: "string \<Rightarrow> string \<Rightarrow> string"
  unquote :: "string \<Rightarrow> string"
  sha1_hex :: "string \<Rightarrow> string"
  url_file_name :: "string \<Rightarrow> string"

datatype error = PWTimeoutError | PWError | TypeError | IOError

definition BASE_URL :: string where
  "BASE_URL = ''https://www.sebi.gov.in/sebiweb/home/HomeAction.do?doListing=yes&sid=1&ssid=7&smid=0''"

definition NUM_ENTRIES :: nat where
  "NUM_ENTRIES = 10"

text \<open>\<open>normalize_text\<close> of both scripts, on a string (\<open>None\<close> gives the empty string).\<close>

definition normalize_text :: "string \<Rightarrow> string" where
  "normalize_text s = strip s"

text \<open>Python's \<open>x or ""\<close> on an optional string.\<close>

definition or_empty :: "string option \<Rightarrow> string" where
  "or_empty v = (case v of None \<Rightarrow> [] | Some s \<Rightarrow> s)"

section \<open>The listing page and its extraction\<close>

text \<open>
  The rendered listing page, as the answers of the queries the scripts make on it: the
  first \<open>table\<close> (if any) with the rows of \<open>tbody tr\<close> and of \<open>tr\<close>, each row with the
  texts of its \<open>td\<close> cells and its first \<open>a\<close>; and the anchors of the content-area
  selector, each with the two texts the fallback reads for the date (\<open>None\<close> when
  \<open>evaluate\<close> raises).
\<close>

record link_elem =
  a_text :: string
  a_href :: "string option"

record table_row =
  tds :: "string list"
  row_link :: "link_elem option"

record table_elem =
  tbody_trs :: "table_row list"
  all_trs :: "table_row list"

record content_anchor =
  ca_text :: string
  ca_href :: "string option"
  ca_prev_sibling_text :: "string option"
  ca_parent_prev_text :: "string option"

record listing_page =
  lp_table :: "table_elem option"
  lp_anchors :: "content_anchor list"

record candidate =
  c_date :: string
  c_title :: string
  c_link :: string

text \<open>\<open>table.query_selector_all("tbody tr") or table.query_selector_all("tr")\<close>.\<close>

definition table_rows_of :: "table_elem \<Rightarrow> table_row list" where
  "table_rows_of t = (if tbody_trs t \<noteq> [] then tbody_trs t else all_trs t)"

text \<open>
  Date, title and link of one table row with at least one cell: the same lines in both
  scripts (make_two_csvs 104 to 114, update_and_download 86 to 96).
\<close>

definition row_candidate :: "stdlib \<Rightarrow> table_row \<Rightarrow> candidate" where
  "row_candidate L r =
     (let date = (if length (tds r) \<ge> 1 then normalize_text (tds r ! 0) else [])
      in case row_link r of
           Some a \<Rightarrow>
             \<lparr>c_date = date, c_title = normalize_text (a_text a),
              c_link = urljoin L BASE_URL (or_empty (a_href a))\<rparr>
         | None \<Rightarrow>
             \<lparr>c_date = date,
              c_title = (if length (tds r) \<ge> 2 then normalize_text (tds r ! 1) else []),
              c_link = []\<rparr>)"

text \<open>The table loop of sebi_make_two_csvs.py: a row is kept \<open>if title\<close>.\<close>

fun table_loop_csv :: "stdlib \<Rightarrow> table_row list \<Rightarrow> candidate list" where
  "table_loop_csv L [] = []"
| "table_loop_csv L (r # rs) =
     (if tds r = [] then table_loop_csv L rs
      else if c_title (row_candidate L r) \<noteq> []
        then row_candidate L r # table_loop_csv L rs
        else table_loop_csv L rs)"

text \<open>The table loop of sebi_update_and_download_missing.py: a row is kept \<open>if title or date\<close>.\<close>

fun table_loop_upd :: "stdlib \<Rightarrow> table_row list \<Rightarrow> candidate list" where
  "table_loop_upd L [] = []"
| "table_loop_upd L (r # rs) =
     (if tds r = [] then table_loop_upd L rs
      else if c_title (row_candidate L r) \<noteq> [] \<or> c_date (row_candidate L r) \<noteq> []
        then row_candidate L r # table_loop_upd L rs
        else table_loop_upd L rs)"

text \<open>The date the anchor fallback recovers (the \<open>try\<close> block, the same in both scripts).\<close>

definition anchor_date :: "content_anchor \<Rightarrow> string" where
  "anchor_date a =
     (case ca_prev_sibling_text a of
        None \<Rightarrow> []
      | Some prev \<Rightarrow>
          (let date = (if prev \<noteq> [] then normalize_text prev else [])
           in if date = []
              then (case ca_parent_prev_text a of None \<Rightarrow> [] | Some p \<Rightarrow> normalize_text p)
              else date))"

text \<open>The anchor loop with its \<open>seen\<close> set of (title, link) pairs, the same in both scripts.\<close>

fun anchor_loop :: "stdlib \<Rightarrow> content_anchor list \<Rightarrow> (string \<times> string) list \<Rightarrow> candidate list" where
  "anchor_loop L [] seen = []"
| "anchor_loop L (a # as) seen =
     (let title = normalize_text (ca_text a);
          link = urljoin L BASE_URL (or_empty (ca_href a));
          key = (title, link)
      in if title \<noteq> [] \<and> key \<notin> set seen
         then \<lparr>c_date = anchor_date a, c_title = title, c_link = link\<rparr>
                # anchor_loop L as (key # seen)
         else anchor_loop L as seen)"

subsection \<open>sebi_make_two_csvs.py: extract_entries_from_listing\<close>

definition extract_entries_from_listing :: "stdlib \<Rightarrow> listing_page \<Rightarrow> candidate list" where
  "extract_entries_from_listing L page =
     (case lp_table page of
        Some t \<Rightarrow> table_loop_csv L (table_rows_of t)
      | None \<Rightarrow> anchor_loop L (lp_anchors page) [])"

subsection \<open>sebi_update_and_download_missing.py: the two extractors and their use in main\<close>

definition extract_entries_from_table :: "stdlib \<Rightarrow> listing_page \<Rightarrow> candidate list" where
  "extract_entries_from_table L page =
     (case lp_table page of
        None \<Rightarrow> []
      | Some t \<Rightarrow> table_loop_upd L (table_rows_of t))"

definition fallback_extract_entries :: "stdlib \<Rightarrow> listing_page \<Rightarrow> candidate list" where
  "fallback_extract_entries L page = anchor_loop L (lp_anchors page) []"

text \<open>Lines 203 to 205 of main: the fallback runs \<open>if not entries\<close>.\<close>

definition listing_entries_upd :: "stdlib \<Rightarrow> listing_page \<Rightarrow> candidate list" where
  "listing_entries_upd L page =
     (let entries = extract_entries_from_table L page
      in if entries = [] then fallback_extract_entries L page else entries)"

section \<open>The detail page and the resolution of the document URL\<close>

text \<open>
  A rendered detail page is a live document: each query is answered when it is made.
  The model holds the answers of the queries the scripts make: \<open>page.url\<close>,
  \<open>page.query_selector(sel)\<close>, \<open>page.query_selector_all(sel)\<close> (for \<open>*\<close>, \<open>iframe\<close> and
  \<open>a\<close>) and \<open>page.frames\<close>. An element is its attributes and its inner text; an
  attribute that is absent, or whose read raises inside the guarded loop, is \<open>None\<close>.
  A query inside a frame may raise; the queries on the page itself are taken to return
  once the page is loaded (a failure to load it is part of the run's world below).
\<close>

record element =
  el_attrs :: "(string \<times> string) list"
  el_text :: string

definition get_attribute :: "element \<Rightarrow> string \<Rightarrow> string option" where
  "get_attribute el a = map_of (el_attrs el) a"

record frame =
  fr_url :: string
  fr_query_selector :: "string \<Rightarrow> error + element option"

record detail_page =
  dp_url :: string
  dp_query_selector :: "string \<Rightarrow> element option"
  dp_query_selector_all :: "string \<Rightarrow> element list"
  dp_frames :: "frame list"

text \<open>Python's truth test on an optional string: \<open>None\<close> and the empty string are false.\<close>

definition falsy :: "string option \<Rightarrow> bool" where
  "falsy u = (u = None \<or> u = Some [])"

definition PDF_SELECTORS :: "string list" where
  "PDF_SELECTORS =
     [''iframe[src$='.pdf']'', ''iframe[src*='.pdf']'',
      ''embed[src$='.pdf']'', ''embed[src*='.pdf']'',
      ''object[data$='.pdf']'', ''object[data*='.pdf']'',
      ''a[href$='.pdf']'', ''a[href*='.pdf']'']"

text \<open>
  \<open>for attr in attrs: v = el.get_attribute(attr); if v and ".pdf" in v.lower(): ...\<close>:
  the first such value.
\<close>

fun first_pdf_attr :: "element \<Rightarrow> string list \<Rightarrow> string option" where
  "first_pdf_attr el [] = None"
| "first_pdf_attr el (a # as) =
     (case get_attribute el a of
        Some v \<Rightarrow> if v \<noteq> [] \<and> contains ''.pdf'' (lower v) then Some v else first_pdf_attr el as
      | None \<Rightarrow> first_pdf_attr el as)"

text \<open>Tier 1: the loop over the selectors.\<close>

fun selector_tier :: "(string \<Rightarrow> element option) \<Rightarrow> string list \<Rightarrow> string option" where
  "selector_tier q [] = None"
| "selector_tier q (sel # sels) =
     (case q sel of
        Some el \<Rightarrow>
          (case first_pdf_attr el [''src'', ''href'', ''data''] of
             Some v \<Rightarrow> Some v
           | None \<Rightarrow> selector_tier q sels)
      | None \<Rightarrow> selector_tier q sels)"

text \<open>Tier 2: the loop over all elements.\<close>

fun all_elements_tier :: "element list \<Rightarrow> string option" where
  "all_elements_tier [] = None"
| "all_elements_tier (el # els) =
     (case first_pdf_attr el [''src'', ''href'', ''data'', ''data-src''] of
        Some v \<Rightarrow> Some v
      | None \<Rightarrow> all_elements_tier els)"

text \<open>
  \<open>re.search(r"[?&]file=([^&]+)", src)\<close> and \<open>re.search(r"src=([^&]+)", src)\<close>: group 1
  of the leftmost match.
\<close>

definition AMP :: char where "AMP = CHR 0x26"

fun re_search_file :: "string \<Rightarrow> string option" where
  "re_search_file [] = None"
| "re_search_file (c # cs) =
     (let g = takeWhile (\<lambda>x. x \<noteq> AMP) (drop 5 cs)
      in if (c = CHR ''?'' \<or> c = AMP) \<and> startswith cs ''file='' \<and> g \<noteq> [] then Some g
         else re_search_file cs)"

fun re_search_src :: "string \<Rightarrow> string option" where
  "re_search_src [] = None"
| "re_search_src (c # cs) =
     (let g = takeWhile (\<lambda>x. x \<noteq> AMP) (drop 4 (c # cs))
      in if startswith (c # cs) ''src='' \<and> g \<noteq> [] then Some g
         else re_search_src cs)"

text \<open>The \<open>file=\<close> test on one iframe (both scripts).\<close>

definition iframe_file_param :: "stdlib \<Rightarrow> string \<Rightarrow> string option" where
  "iframe_file_param L src =
     (if contains ''file='' src \<and> contains ''.pdf'' src
      then (case re_search_file src of
              Some g \<Rightarrow> if contains ''.pdf'' (unquote L g) then Some (unquote L g) else None
            | None \<Rightarrow> None)
      else None)"

text \<open>The \<open>pdfjs\<close>/\<open>viewer\<close> test on one iframe (sebi_update_and_download_missing.py only).\<close>

definition iframe_viewer_param :: "stdlib \<Rightarrow> string \<Rightarrow> string option" where
  "iframe_viewer_param L src =
     (if contains ''pdfjs'' src \<or> contains ''viewer'' src
      then (case re_search_src src of
              Some g \<Rightarrow> if contains ''.pdf'' (unquote L g) then Some (unquote L g) else None
            | None \<Rightarrow> None)
      else None)"

subsection \<open>sebi_make_two_csvs.py: find_pdf_url_on_page\<close>

fun iframe_tier_csv :: "stdlib \<Rightarrow> element list \<Rightarrow> string option" where
  "iframe_tier_csv L [] = None"
| "iframe_tier_csv L (ifr # ifrs) =
     (case iframe_file_param L (or_empty (get_attribute ifr ''src'')) of
        Some candidate \<Rightarrow> Some candidate
      | None \<Rightarrow> iframe_tier_csv L ifrs)"

definition find_pdf_url_on_page_csv :: "stdlib \<Rightarrow> detail_page \<Rightarrow> string option" where
  "find_pdf_url_on_page_csv L page =
     (case selector_tier (dp_query_selector page) PDF_SELECTORS of
        Some v \<Rightarrow> Some (urljoin L (dp_url page) v)
      | None \<Rightarrow>
     (case all_elements_tier (dp_query_selector_all page ''*'') of
        Some v \<Rightarrow> Some (urljoin L (dp_url page) v)
      | None \<Rightarrow>
     (case iframe_tier_csv L (dp_query_selector_all page ''iframe'') of
        Some candidate \<Rightarrow> Some (urljoin L (dp_url page) candidate)
      | None \<Rightarrow> None)))"

subsection \<open>sebi_update_and_download_missing.py: find_pdf_url_on_page\<close>

fun iframe_tier_upd :: "stdlib \<Rightarrow> element list \<Rightarrow> string option" where
  "iframe_tier_upd L [] = None"
| "iframe_tier_upd L (ifr # ifrs) =
     (case iframe_file_param L (or_empty (get_attribute ifr ''src'')) of
        Some candidate \<Rightarrow> Some candidate
      | None \<Rightarrow>
     (case iframe_viewer_param L (or_empty (get_attribute ifr ''src'')) of
        Some candidate \<Rightarrow> Some candidate
      | None \<Rightarrow> iframe_tier_upd L ifrs))"

definition find_pdf_url_on_page_upd :: "stdlib \<Rightarrow> detail_page \<Rightarrow> string option" where
  "find_pdf_url_on_page_upd L page =
     (case selector_tier (dp_query_selector page) PDF_SELECTORS of
        Some v \<Rightarrow> Some (urljoin L (dp_url page) v)
      | None \<Rightarrow>
     (case all_elements_tier (dp_query_selector_all page ''*'') of
        Some v \<Rightarrow> Some (urljoin L (dp_url page) v)
      | None \<Rightarrow>
     (case iframe_tier_upd L (dp_query_selector_all page ''iframe'') of
        Some candidate \<Rightarrow> Some (urljoin L (dp_url page) candidate)
      | None \<Rightarrow> None)))"

subsection \<open>sebi_update_and_download_missing.py: the two further scans of main\<close>

text \<open>Lines 256 to 262: the first hyperlink that looks like a document link.\<close>

fun anchor_scan :: "element list \<Rightarrow> string option" where
  "anchor_scan [] = None"
| "anchor_scan (a # as) =
     (let href = or_empty (get_attribute a ''href'');
          txt = lower (el_text a)
      in if href \<noteq> [] \<and>
            (endswith (lower href) ''.pdf'' \<or>
             (contains ''.pdf'' (lower href) \<and> (contains ''view'' txt \<or> contains ''pdf'' txt)))
         then Some href
         else anchor_scan as)"

definition FRAME_SELECTORS :: "string list" where
  "FRAME_SELECTORS =
     [''iframe[src$='.pdf']'', ''embed[src$='.pdf']'', ''object[data$='.pdf']'', ''a[href$='.pdf']'']"

text \<open>
  Lines 273 to 282, inside one frame: the loop over the four selectors. A query that
  raises leaves the frame (\<open>except Exception: continue\<close>). The loop stops at a selector
  whose element gives a URL that is true.
\<close>

fun frame_selectors :: "stdlib \<Rightarrow> frame \<Rightarrow> string list \<Rightarrow> error + string option" where
  "frame_selectors L fr [] = Inr None"
| "frame_selectors L fr (sel # sels) =
     (case fr_query_selector fr sel of
        Inl e \<Rightarrow> Inl e
      | Inr None \<Rightarrow> frame_selectors L fr sels
      | Inr (Some el) \<Rightarrow>
          (case first_pdf_attr el [''src'', ''href'', ''data''] of
             Some v \<Rightarrow>
               if urljoin L (fr_url fr) v \<noteq> [] then Inr (Some (urljoin L (fr_url fr) v))
               else frame_selectors L fr sels
           | None \<Rightarrow> frame_selectors L fr sels))"

text \<open>Lines 266 to 286: the loop over \<open>entry_page.frames\<close>.\<close>

fun frame_scan :: "stdlib \<Rightarrow> frame list \<Rightarrow> string option" where
  "frame_scan L [] = None"
| "frame_scan L (fr # frs) =
     (if fr_url fr \<noteq> [] \<and> endswith (lower (fr_url fr)) ''.pdf'' then Some (fr_url fr)
      else (case frame_selectors L fr FRAME_SELECTORS of
              Inl e \<Rightarrow> frame_scan L frs
            | Inr None \<Rightarrow> frame_scan L frs
            | Inr (Some u) \<Rightarrow> Some u))"

text \<open>
  Lines 253 to 286 of main: \<open>find_pdf_url_on_page\<close>, then the hyperlink scan
  \<open>if not pdf_url\<close>, then the frame scan \<open>if not pdf_url\<close>. The result is the value of
  \<open>pdf_url\<close> at line 288, with a false value given as \<open>None\<close>.
\<close>

definition resolve_pdf_url :: "stdlib \<Rightarrow> detail_page \<Rightarrow> string option" where
  "resolve_pdf_url L page =
     (let pdf_url = find_pdf_url_on_page_upd L page;
          pdf_url = (if falsy pdf_url
                     then (case anchor_scan (dp_query_selector_all page ''a'') of
                             Some href \<Rightarrow> Some (urljoin L (dp_url page) href)
                           | None \<Rightarrow> pdf_url)
                     else pdf_url);
          pdf_url = (if falsy pdf_url
                     then (case frame_scan L (dp_frames page) of
                             Some u \<Rightarrow> Some u
                           | None \<Rightarrow> pdf_url)
                     else pdf_url)
      in if falsy pdf_url then None else pdf_url)"

text \<open>
  The same lines as a control flow: which of the three scans run, in the order in which
  they run. \<open>find_pdf_url_on_page\<close> always runs; each of the two others runs
  \<open>if not pdf_url\<close>.
\<close>

datatype scan = FindOnPage | AnchorScan | FrameScan

definition scans_run :: "stdlib \<Rightarrow> detail_page \<Rightarrow> scan list" where
  "scans_run L page =
     (let pdf_url = find_pdf_url_on_page_upd L page;
          ran = [FindOnPage];
          ran = (if falsy pdf_url then ran @ [AnchorScan] else ran);
          pdf_url = (if falsy pdf_url
                     then (case anchor_scan (dp_query_selector_all page ''a'') of
                             Some href \<Rightarrow> Some (urljoin L (dp_url page) href)
                           | None \<Rightarrow> pdf_url)
                     else pdf_url);
          ran = (if falsy pdf_url then ran @ [FrameScan] else ran)
      in ran)"

section \<open>The catalog file of sebi_make_two_csvs.py\<close>

text \<open>
  A catalog row. The scripts hold a row as a dictionary and read its fields with
  \<open>r.get(k)\<close>, turning \<open>None\<close> into the empty string wherever they use it; the model
  holds the nine fields as strings.
\<close>

record entry =
  en_id :: string
  en_date :: string
  en_title :: string
  en_link :: string
  en_pdf_link :: string
  en_pdf_filename :: string
  en_pdf_downloaded :: string
  en_created_at :: string
  en_source_commit :: string

definition HEADERS :: "string list" where
  "HEADERS = [''id'', ''date'', ''title'', ''link'', ''pdf_link'', ''pdf_filename'',
              ''pdf_downloaded'', ''created_at'', ''source_commit'']"

definition entry_fields :: "entry \<Rightarrow> string list" where
  "entry_fields r = [en_id r, en_date r, en_title r, en_link r, en_pdf_link r,
                     en_pdf_filename r, en_pdf_downloaded r, en_created_at r, en_source_commit r]"

subsection \<open>csv.DictWriter as write_csv configures it\<close>

text \<open>
  The writer of CPython's \<open>csv\<close> module (3.10 and later) with \<open>delimiter='|'\<close>,
  \<open>quoting=QUOTE_MINIMAL\<close>, \<open>escapechar='\\'\<close> and the defaults \<open>quotechar='"'\<close>,
  \<open>doublequote=True\<close>, \<open>lineterminator='\r\n'\<close>: a quote character is doubled, the
  escape character is written twice, and a field with a delimiter, a quote character, a
  carriage return or a line feed is put between quote characters.
\<close>

definition DELIM :: char where "DELIM = CHR ''|''"
definition QUOTE :: char where "QUOTE = CHR 0x22"
definition ESCAPE :: char where "ESCAPE = CHR 0x5C"

definition field_needs_quotes :: "string \<Rightarrow> bool" where
  "field_needs_quotes s = (\<exists>c\<in>set s. c = DELIM \<or> c = QUOTE \<or> c = CR \<or> c = LF)"

fun field_body :: "string \<Rightarrow> string" where
  "field_body [] = []"
| "field_body (c # cs) =
     (if c = QUOTE then QUOTE # QUOTE # field_body cs
      else if c = ESCAPE then ESCAPE # ESCAPE # field_body cs
      else c # field_body cs)"

definition write_field :: "string \<Rightarrow> string" where
  "write_field s =
     (if field_needs_quotes s then [QUOTE] @ field_body s @ [QUOTE] else field_body s)"

fun join_fields :: "string list \<Rightarrow> string" where
  "join_fields [] = []"
| "join_fields [f] = f"
| "join_fields (f # g # fs) = f @ [DELIM] @ join_fields (g # fs)"

definition writerow :: "string list \<Rightarrow> string" where
  "writerow flds = join_fields (map write_field flds) @ [CR, LF]"

text \<open>\<open>data.replace(b'\r\n', b'\n')\<close>.\<close>

fun crlf_to_lf :: "string \<Rightarrow> string" where
  "crlf_to_lf [] = []"
| "crlf_to_lf [c] = [c]"
| "crlf_to_lf (c # d # cs) =
     (if c = CR \<and> d = LF then LF # crlf_to_lf cs else c # crlf_to_lf (d # cs))"

text \<open>
  The row \<open>write_csv\<close> hands to the writer: the nine fields as strings, with
  \<open>safe_filename\<close> applied again to \<open>pdf_filename\<close>.
\<close>

definition safe_row :: "entry \<Rightarrow> entry" where
  "safe_row r = r\<lparr>en_pdf_filename := safe_filename_csv (en_pdf_filename r) ''document.pdf''\<rparr>"

text \<open>The text the \<open>with\<close> block of \<open>write_csv\<close> writes, and the text after the second pass.\<close>

definition csv_text :: "entry list \<Rightarrow> string" where
  "csv_text rows = writerow HEADERS @ concat (map (\<lambda>r. writerow (entry_fields (safe_row r))) rows)"

definition write_csv :: "entry list \<Rightarrow> string" where
  "write_csv rows = crlf_to_lf (csv_text rows)"

text \<open>
  The contents of the catalog file, one after the other, while \<open>write_csv\<close> runs on a
  file that holds \<open>old\<close> (\<open>None\<close>: no file): \<open>open(path, "w")\<close> truncates it, leaving the
  \<open>with\<close> block writes the text, \<open>open(path, "wb")\<close> truncates it again, and its close
  writes the text with line feeds only.
\<close>

definition write_csv_states :: "string option \<Rightarrow> entry list \<Rightarrow> string option list" where
  "write_csv_states old rows =
     [old, Some [], Some (csv_text rows), Some [], Some (write_csv rows)]"

subsection \<open>csv.DictReader as load_master_csv configures it\<close>

text \<open>
  The reader of CPython's \<open>csv\<close> module with \<open>delimiter='|'\<close> and the defaults
  \<open>quotechar='"'\<close>, \<open>doublequote=True\<close>, no escape character, not strict: the state
  machine of \<open>parse_process_char\<close>, fed the characters of each line and then the
  end-of-line mark. The file is opened with \<open>newline=''\<close>, so a line ends after a line
  feed, a carriage return, or the pair.
\<close>

fun split_lines :: "string \<Rightarrow> string \<Rightarrow> string list" where
  "split_lines acc [] = (if acc = [] then [] else [acc])"
| "split_lines acc [c] = [acc @ [c]]"
| "split_lines acc (c # d # cs) =
     (if c = LF then (acc @ [c]) # split_lines [] (d # cs)
      else if c = CR \<and> d = LF then (acc @ [c, d]) # split_lines [] cs
      else if c = CR then (acc @ [c]) # split_lines [] (d # cs)
      else split_lines (acc @ [c]) (d # cs))"

datatype parser_state =
  START_RECORD | START_FIELD | IN_FIELD | IN_QUOTED_FIELD | QUOTE_IN_QUOTED_FIELD |
  EAT_CRNL | PARSE_ERROR

record reader =
  rd_state :: parser_state
  rd_field :: string
  rd_fields :: "string list"

definition parse_reset :: reader where
  "parse_reset = \<lparr>rd_state = START_RECORD, rd_field = [], rd_fields = []\<rparr>"

definition parse_save_field :: "reader \<Rightarrow> reader" where
  "parse_save_field r = r\<lparr>rd_fields := rd_fields r @ [rd_field r], rd_field := []\<rparr>"

definition parse_add_char :: "reader \<Rightarrow> char \<Rightarrow> reader" where
  "parse_add_char r c = r\<lparr>rd_field := rd_field r @ [c]\<rparr>"

text \<open>
  One step of the parser on a character \<open>Some ch\<close> or on the end-of-line mark \<open>None\<close>.
  \<open>start_field\<close> is the case \<open>START_FIELD\<close>, which \<open>START_RECORD\<close> falls through to.
\<close>

definition is_newline :: "char \<Rightarrow> bool" where
  "is_newline ch = (ch = LF \<or> ch = CR)"

definition start_field :: "reader \<Rightarrow> char option \<Rightarrow> reader" where
  "start_field r c =
     (case c of
        None \<Rightarrow> (parse_save_field r)\<lparr>rd_state := START_RECORD\<rparr>
      | Some ch \<Rightarrow>
          if is_newline ch then (parse_save_field r)\<lparr>rd_state := EAT_CRNL\<rparr>
          else if ch = QUOTE then r\<lparr>rd_state := IN_QUOTED_FIELD\<rparr>
          else if ch = DELIM then parse_save_field r
          else (parse_add_char r ch)\<lparr>rd_state := IN_FIELD\<rparr>)"

definition parse_process_char :: "reader \<Rightarrow> char option \<Rightarrow> reader" where
  "parse_process_char r c =
     (case rd_state r of
        START_RECORD \<Rightarrow>
          (case c of
             None \<Rightarrow> r
           | Some ch \<Rightarrow>
               if is_newline ch then r\<lparr>rd_state := EAT_CRNL\<rparr>
               else start_field (r\<lparr>rd_state := START_FIELD\<rparr>) c)
      | START_FIELD \<Rightarrow> start_field r c
      | IN_FIELD \<Rightarrow>
          (case c of
             None \<Rightarrow> (parse_save_field r)\<lparr>rd_state := START_RECORD\<rparr>
           | Some ch \<Rightarrow>
               if is_newline ch then (parse_save_field r)\<lparr>rd_state := EAT_CRNL\<rparr>
               else if ch = DELIM then (parse_save_field r)\<lparr>rd_state := START_FIELD\<rparr>
               else parse_add_char r ch)
      | IN_QUOTED_FIELD \<Rightarrow>
          (case c of
             None \<Rightarrow> r
           | Some ch \<Rightarrow>
               if ch = QUOTE then r\<lparr>rd_state := QUOTE_IN_QUOTED_FIELD\<rparr>
               else parse_add_char r ch)
      | QUOTE_IN_QUOTED_FIELD \<Rightarrow>
          (case c of
             None \<Rightarrow> (parse_save_field r)\<lparr>rd_state := START_RECORD\<rparr>
           | Some ch \<Rightarrow>
               if ch = QUOTE then (parse_add_char r QUOTE)\<lparr>rd_state := IN_QUOTED_FIELD\<rparr>
               else if ch = DELIM then (parse_save_field r)\<lparr>rd_state := START_FIELD\<rparr>
               else if is_newline ch then (parse_save_field r)\<lparr>rd_state := EAT_CRNL\<rparr>
               else (parse_add_char r ch)\<lparr>rd_state := IN_FIELD\<rparr>)
      | EAT_CRNL \<Rightarrow>
          (case c of
             None \<Rightarrow> r\<lparr>rd_state := START_RECORD\<rparr>
           | Some ch \<Rightarrow> if is_newline ch then r else r\<lparr>rd_state := PARSE_ERROR\<rparr>)
      | PARSE_ERROR \<Rightarrow> r)"

text \<open>
  \<open>Reader_iternext\<close>: lines are consumed until the state is back at the start of a
  record; at the end of the input a pending field closes the last record. A parse error
  is the exception \<open>csv.Error\<close>.
\<close>

fun read_records :: "reader \<Rightarrow> string list \<Rightarrow> error + string list list" where
  "read_records r [] =
     (if rd_field r \<noteq> [] \<or> rd_state r = IN_QUOTED_FIELD
      then Inr [rd_fields (parse_save_field r)] else Inr [])"
| "read_records r (l # ls) =
     (let r' = parse_process_char (foldl parse_process_char r (map Some l)) None
      in if rd_state r' = PARSE_ERROR then Inl IOError
         else if rd_state r' = START_RECORD
           then (case read_records parse_reset ls of
                   Inl e \<Rightarrow> Inl e
                 | Inr recs \<Rightarrow> Inr (rd_fields r' # recs))
           else read_records r' ls)"

text \<open>
  \<open>csv.DictReader\<close>: the first record gives the field names; an empty record is skipped;
  a field a short record lacks is \<open>None\<close>, read here as the empty string.
\<close>

definition dict_get :: "string list \<Rightarrow> string list \<Rightarrow> string \<Rightarrow> string" where
  "dict_get fieldnames rec k = or_empty (map_of (rev (zip fieldnames rec)) k)"

definition entry_of_record :: "string list \<Rightarrow> string list \<Rightarrow> entry" where
  "entry_of_record fieldnames rec =
     \<lparr>en_id = dict_get fieldnames rec ''id'', en_date = dict_get fieldnames rec ''date'',
      en_title = dict_get fieldnames rec ''title'', en_link = dict_get fieldnames rec ''link'',
      en_pdf_link = dict_get fieldnames rec ''pdf_link'',
      en_pdf_filename = dict_get fieldnames rec ''pdf_filename'',
      en_pdf_downloaded = dict_get fieldnames rec ''pdf_downloaded'',
      en_created_at = dict_get fieldnames rec ''created_at'',
      en_source_commit = dict_get fieldnames rec ''source_commit''\<rparr>"

definition dict_rows :: "string list list \<Rightarrow> entry list" where
  "dict_rows recs =
     (case recs of
        [] \<Rightarrow> []
      | fieldnames # rest \<Rightarrow> map (entry_of_record fieldnames) (filter (\<lambda>rec. rec \<noteq> []) rest))"

text \<open>\<open>load_master_csv\<close> on the file's contents (\<open>None\<close>: the file does not exist).\<close>

definition load_master_csv :: "string option \<Rightarrow> error + entry list" where
  "load_master_csv file =
     (case file of
        None \<Rightarrow> Inr []
      | Some text \<Rightarrow>
          (case read_records parse_reset (split_lines [] text) of
             Inl e \<Rightarrow> Inl e
           | Inr recs \<Rightarrow> Inr (dict_rows recs)))"

section \<open>A run\<close>

text \<open>
  What a run meets outside the scripts, by the position \<open>idx\<close> (from 1) of the candidate
  in the truncated list: the detail page that loading the candidate's link gives, or
  the exception raised inside the \<open>try\<close> block before the page is read (a timeout or
  another error of \<open>goto\<close>); the clock; whether
  \<open>download_pdf_via_playwright_request\<close> fetches and writes the document; and how the
  append of the row ends.
\<close>

datatype append_outcome = AppendOk | WriterowRaises | FlushRaises

record world =
  w_detail :: "nat \<Rightarrow> error + detail_page"
  w_now :: "nat \<Rightarrow> string"
  w_download :: "string \<Rightarrow> string \<Rightarrow> bool"
  w_append :: "nat \<Rightarrow> append_outcome"

text \<open>The dedup key of both scripts: \<open>title.strip().lower()\<close>.\<close>

definition title_key :: "string \<Rightarrow> string" where
  "title_key t = lower (strip t)"

subsection \<open>sebi_make_two_csvs.py: main\<close>

definition make_id :: "stdlib \<Rightarrow> string \<Rightarrow> string \<Rightarrow> string \<Rightarrow> string" where
  "make_id L date title link = sha1_hex L (date @ ''|'' @ title @ ''|'' @ link)"

text \<open>
  The state of the loop: the title set, the two lists, and the catalog file on disk
  (\<open>None\<close>: no file), which the loop can reach as any file.
\<close>

record csv_run =
  cr_existing_titles :: "string set"
  cr_new_master :: "entry list"
  cr_new_entries :: "entry list"
  cr_catalog_file :: "string option"

text \<open>Lines 226 to 228: the keys of the loaded rows, empty keys left out.\<close>

definition existing_titles_of :: "entry list \<Rightarrow> string set" where
  "existing_titles_of master_rows =
     set (filter (\<lambda>t. t \<noteq> []) (map (\<lambda>r. title_key (en_title r)) master_rows))"

text \<open>Lines 244 to 271: the row of a new candidate.\<close>

definition new_row_csv :: "stdlib \<Rightarrow> world \<Rightarrow> nat \<Rightarrow> candidate \<Rightarrow> entry" where
  "new_row_csv L W idx e =
     (let date = c_date e; title = c_title e; link = c_link e;
          pdf_url = (case w_detail W idx of
                       Inl ex \<Rightarrow> None
                     | Inr detail_page \<Rightarrow> find_pdf_url_on_page_csv L detail_page)
      in \<lparr>en_id = make_id L date title link, en_date = date, en_title = title, en_link = link,
          en_pdf_link = or_empty pdf_url,
          en_pdf_filename = safe_filename_csv title ''document'',
          en_pdf_downloaded = ''no'',
          en_created_at = w_now W idx,
          en_source_commit = []\<rparr>)"

text \<open>Lines 234 to 274: the body of the loop.\<close>

definition process_candidate_csv :: "stdlib \<Rightarrow> world \<Rightarrow> csv_run \<Rightarrow> nat \<Rightarrow> candidate \<Rightarrow> csv_run" where
  "process_candidate_csv L W st idx e =
     (if title_key (c_title e) \<in> cr_existing_titles st then st
      else st\<lparr>cr_new_master := cr_new_master st @ [new_row_csv L W idx e],
              cr_new_entries := cr_new_entries st @ [new_row_csv L W idx e],
              cr_existing_titles := insert (title_key (c_title e)) (cr_existing_titles st)\<rparr>)"

fun candidates_loop_csv :: "stdlib \<Rightarrow> world \<Rightarrow> nat \<Rightarrow> candidate list \<Rightarrow> csv_run \<Rightarrow> csv_run" where
  "candidates_loop_csv L W idx [] st = st"
| "candidates_loop_csv L W idx (e # es) st =
     candidates_loop_csv L W (Suc idx) es (process_candidate_csv L W st idx e)"

text \<open>
  \<open>main\<close>: no candidate ends the run before any file is read or written; a catalog that
  cannot be parsed raises; otherwise the loop runs on the first \<open>NUM_ENTRIES\<close> candidates
  and \<open>write_csv\<close> then rewrites the catalog from \<open>new_master\<close>.
\<close>

datatype 'a outcome = NoEntries | Raised error | Done 'a

definition loop_of_main_csv :: "stdlib \<Rightarrow> world \<Rightarrow> candidate list \<Rightarrow> entry list \<Rightarrow> string option \<Rightarrow> csv_run" where
  "loop_of_main_csv L W entries master_rows file =
     candidates_loop_csv L W 1 (take NUM_ENTRIES entries)
       \<lparr>cr_existing_titles = existing_titles_of master_rows,
        cr_new_master = master_rows, cr_new_entries = [], cr_catalog_file = file\<rparr>"

definition main_csv :: "stdlib \<Rightarrow> world \<Rightarrow> listing_page \<Rightarrow> string option \<Rightarrow> csv_run outcome" where
  "main_csv L W page file =
     (let entries = extract_entries_from_listing L page
      in if entries = [] then NoEntries
         else (case load_master_csv file of
                 Inl e \<Rightarrow> Raised e
               | Inr master_rows \<Rightarrow>
                   (let st = loop_of_main_csv L W entries master_rows file
                    in Done (st\<lparr>cr_catalog_file := Some (write_csv (cr_new_master st))\<rparr>))))"

subsection \<open>sebi_update_and_download_missing.py: main\<close>

record upd_row =
  ur_date :: string
  ur_title :: string
  ur_link :: string
  ur_pdf_link :: string
  ur_pdf_filename :: string
  ur_pdf_downloaded :: string

text \<open>
  \<open>def log(msg)\<close> takes one argument; a call with another number of arguments raises
  \<open>TypeError\<close>.
\<close>

definition log :: "string list \<Rightarrow> error + unit" where
  "log args = (if length args = 1 then Inr () else Inl TypeError)"

text \<open>Python's \<open>str\<close> of a natural number, for \<open>f"entry_{idx}"\<close>.\<close>

definition digit_char :: "nat \<Rightarrow> char" where
  "digit_char d = char_of (48 + d)"

function str_nat :: "nat \<Rightarrow> string" where
  "str_nat n = (if n < 10 then [digit_char n] else str_nat (n div 10) @ [digit_char (n mod 10)])"
  by pat_completeness auto
termination
  by (relation "measure id") auto

text \<open>
  The local variables the \<open>try\<close> block of the loop leaves behind, and the documents
  \<open>download_pdf_via_playwright_request\<close> has fetched and written (URL and path).
\<close>

record locals =
  lv_pdf_url :: "string option"
  lv_pdf_file :: string
  lv_downloaded :: bool
  lv_fetched :: "(string \<times> string) list"

text \<open>
  Lines 291 to 303, reached when the \<open>log\<close> call of line 290 returns: the destination
  path, the download, and the variables set from its result.
\<close>

definition download_and_record :: "stdlib \<Rightarrow> world \<Rightarrow> string \<Rightarrow> string \<Rightarrow> locals" where
  "download_and_record L W pdf_url title_raw =
     (let dest_path = dest_path_for (url_file_name L pdf_url) title_raw
      in if w_download W pdf_url dest_path
         then \<lparr>lv_pdf_url = Some pdf_url, lv_pdf_file = dest_path,
               lv_downloaded = True, lv_fetched = [(pdf_url, dest_path)]\<rparr>
         else \<lparr>lv_pdf_url = Some pdf_url, lv_pdf_file = [],
               lv_downloaded = False, lv_fetched = []\<rparr>)"

text \<open>
  Lines 248 to 310. An exception leaves the \<open>try\<close> block with the variables as they
  are: before the page is loaded nothing is set; at the \<open>log\<close> call of line 290
  \<open>pdf_url\<close> is set and nothing is downloaded.
\<close>

definition try_block :: "stdlib \<Rightarrow> world \<Rightarrow> nat \<Rightarrow> string \<Rightarrow> locals" where
  "try_block L W idx title_raw =
     (case w_detail W idx of
        Inl ex \<Rightarrow> \<lparr>lv_pdf_url = None, lv_pdf_file = [], lv_downloaded = False, lv_fetched = []\<rparr>
      | Inr entry_page \<Rightarrow>
          (case resolve_pdf_url L entry_page of
             None \<Rightarrow> \<lparr>lv_pdf_url = None, lv_pdf_file = [], lv_downloaded = False, lv_fetched = []\<rparr>
           | Some found \<Rightarrow>
               (let pdf_url = urljoin L (dp_url entry_page) found
                in case log [''  [FOUND] PDF URL:'', pdf_url] of
                     Inl ex \<Rightarrow>
                       \<lparr>lv_pdf_url = Some pdf_url, lv_pdf_file = [], lv_downloaded = False,
                        lv_fetched = []\<rparr>
                   | Inr u \<Rightarrow> download_and_record L W pdf_url title_raw)))"

text \<open>
  The state of the loop: the title set, the counter, the rows whose \<open>writerow\<close> and
  \<open>flush\<close> both returned, the rows written whose \<open>flush\<close> raised, and the documents
  fetched and written under \<open>pdfs\<close> (URL and path).
\<close>

record upd_run =
  us_existing_titles :: "string set"
  us_added :: nat
  us_appended :: "upd_row list"
  us_unflushed :: "upd_row list"
  us_fetched :: "(string \<times> string) list"

definition title_raw_of :: "nat \<Rightarrow> candidate \<Rightarrow> string" where
  "title_raw_of idx e = (if c_title e \<noteq> [] then c_title e else ''entry_'' @ str_nat idx)"

text \<open>Lines 314 to 321: the row of a candidate.\<close>

definition new_row_upd :: "stdlib \<Rightarrow> world \<Rightarrow> nat \<Rightarrow> candidate \<Rightarrow> upd_row" where
  "new_row_upd L W idx e =
     (let lv = try_block L W idx (title_raw_of idx e)
      in \<lparr>ur_date = c_date e, ur_title = title_raw_of idx e, ur_link = c_link e,
          ur_pdf_link = or_empty (lv_pdf_url lv),
          ur_pdf_filename = lv_pdf_file lv,
          ur_pdf_downloaded = (if lv_downloaded lv then ''yes'' else ''no'')\<rparr>)"

text \<open>Lines 232 to 328: the body of the loop.\<close>

definition process_entry_upd :: "stdlib \<Rightarrow> world \<Rightarrow> upd_run \<Rightarrow> nat \<Rightarrow> candidate \<Rightarrow> upd_run" where
  "process_entry_upd L W st idx e =
     (if title_key (title_raw_of idx e) \<in> us_existing_titles st then st
      else
        (let st1 = st\<lparr>us_fetched :=
                        us_fetched st @ lv_fetched (try_block L W idx (title_raw_of idx e))\<rparr>
         in case w_append W idx of
              WriterowRaises \<Rightarrow> st1
            | FlushRaises \<Rightarrow> st1\<lparr>us_unflushed := us_unflushed st1 @ [new_row_upd L W idx e]\<rparr>
            | AppendOk \<Rightarrow>
                st1\<lparr>us_appended := us_appended st1 @ [new_row_upd L W idx e],
                    us_existing_titles :=
                      insert (title_key (title_raw_of idx e)) (us_existing_titles st1),
                    us_added := us_added st1 + 1\<rparr>))"

fun entries_loop_upd :: "stdlib \<Rightarrow> world \<Rightarrow> nat \<Rightarrow> candidate list \<Rightarrow> upd_run \<Rightarrow> upd_run" where
  "entries_loop_upd L W idx [] st = st"
| "entries_loop_upd L W idx (e # es) st =
     entries_loop_upd L W (Suc idx) es (process_entry_upd L W st idx e)"


subsection \<open>Notions used to state the properties of a run\<close>


text \<open>
  The catalog file after a run of sebi_make_two_csvs.py on the file \<open>file\<close>: a run that
  ends before \<open>write_csv\<close> leaves the file as it was.
\<close>

definition catalog_after_run :: "stdlib \<Rightarrow> world \<Rightarrow> listing_page \<Rightarrow> string option \<Rightarrow> string option" where
  "catalog_after_run L W page file =
     (case main_csv L W page file of
        Done st \<Rightarrow> cr_catalog_file st
      | NoEntries \<Rightarrow> file
      | Raised e \<Rightarrow> file)"

text \<open>The titles \<open>load_master_csv\<close> reads from a catalog file, in order.\<close>

definition catalog_titles :: "string option \<Rightarrow> string list" where
  "catalog_titles file =
     (case load_master_csv file of Inr rows \<Rightarrow> map en_title rows | Inl e \<Rightarrow> [])"

text \<open>
  The answer of a frame's document to a selector, as \<open>find_pdf_url_on_page\<close> would read
  it if it were run inside the frame (a query that raises gives nothing).
\<close>

definition frame_query :: "frame \<Rightarrow> string \<Rightarrow> element option" where
  "frame_query fr sel = (case fr_query_selector fr sel of Inl e \<Rightarrow> None | Inr el \<Rightarrow> el)"

text \<open>Two frames that the frame scan cannot tell apart: the same URL, and the same answers
  to the four selectors of \<open>FRAME_SELECTORS\<close>.\<close>

definition same_for_frame_scan :: "frame \<Rightarrow> frame \<Rightarrow> bool" where
  "same_for_frame_scan f g =
     (fr_url f = fr_url g \<and>
      list_all (\<lambda>sel. fr_query_selector f sel = fr_query_selector g sel) FRAME_SELECTORS)"



section \<open>Concrete inputs used in the evaluations below\<close>

text \<open>
  A stand-in for the standard library: \<open>urljoin\<close> returns the reference it is given,
  and the digest is a letter and the length of its input.
\<close>

definition L0 :: stdlib where
  "L0 = \<lparr>urljoin = (\<lambda>b h. h), unquote = (\<lambda>s. s), sha1_hex = (\<lambda>s. ''h'' @ str_nat (length s)),
          url_file_name = (\<lambda>s. [])\<rparr>"

text \<open>
  A listing page whose first table has one header row (no \<open>td\<close> cell) and whose content
  area has one link.
\<close>

definition page_header_table :: listing_page where
  "page_header_table =
     \<lparr>lp_table = Some \<lparr>tbody_trs = [], all_trs = [\<lparr>tds = [], row_link = None\<rparr>]\<rparr>,
      lp_anchors = [\<lparr>ca_text = ''Circular X'', ca_href = Some ''/x'',
                     ca_prev_sibling_text = Some ''Jan 01, 2025'', ca_parent_prev_text = None\<rparr>]\<rparr>"

text \<open>
  A listing page whose table has three rows: a date with a linked title, a date alone,
  and two blank cells.
\<close>

definition page_three_rows :: listing_page where
  "page_three_rows =
     \<lparr>lp_table = Some \<lparr>tbody_trs =
         [\<lparr>tds = [''Jan 02, 2025'', ''Circular A''],
           row_link = Some \<lparr>a_text = '' Circular A '', a_href = Some ''/a''\<rparr>\<rparr>,
          \<lparr>tds = [''Jan 01, 2025''], row_link = None\<rparr>,
          \<lparr>tds = ['' '', []], row_link = None\<rparr>],
        all_trs = []\<rparr>,
      lp_anchors = []\<rparr>"

text \<open>
  A live detail page on which the three tiers of \<open>find_pdf_url_on_page\<close> find nothing,
  whose hyperlink query, made after them, gives a link to a document (the page's script
  has added it by then), and which has a frame whose own address is a document.
\<close>

definition page_link_and_frame :: detail_page where
  "page_link_and_frame =
     \<lparr>dp_url = ''https://www.sebi.gov.in/legal/circulars/c1.html'',
      dp_query_selector = (\<lambda>sel. None),
      dp_query_selector_all =
        (\<lambda>sel. if sel = ''a''
                then [\<lparr>el_attrs = [(''href'', ''/files/c1.pdf'')], el_text = ''View''\<rparr>]
                else []),
      dp_frames =
        [\<lparr>fr_url = ''https://www.sebi.gov.in/frame/c1.pdf'',
          fr_query_selector = (\<lambda>sel. Inr None)\<rparr>]\<rparr>"

text \<open>A detail page with an embedded document, found by the first selector.\<close>

definition page_embedded :: detail_page where
  "page_embedded =
     \<lparr>dp_url = ''https://www.sebi.gov.in/legal/circulars/c2.html'',
      dp_query_selector =
        (\<lambda>sel. if sel = ''iframe[src$='.pdf']''
                then Some \<lparr>el_attrs = [(''src'', ''/files/c2.pdf'')], el_text = []\<rparr>
                else None),
      dp_query_selector_all = (\<lambda>sel. []),
      dp_frames = []\<rparr>"

text \<open>
  A run with three candidates, the third with the title of the first in another case:
  loading the first detail page times out, the second detail page embeds a document,
  and the flush after the third row would raise.
\<close>

definition cand1 :: candidate where
  "cand1 = \<lparr>c_date = ''Jan 03, 2025'', c_title = ''Circular C'', c_link = ''/c''\<rparr>"

definition cand2 :: candidate where
  "cand2 = \<lparr>c_date = ''Jan 02, 2025'', c_title = ''Circular B'', c_link = ''/b''\<rparr>"


definition W0 :: world where
  "W0 = \<lparr>w_detail = (\<lambda>i. if i = 1 then Inl PWTimeoutError else Inr page_embedded),
          w_now = (\<lambda>i. ''2025-01-03T00:00:00Z''),
          w_download = (\<lambda>u d. True),
          w_append = (\<lambda>i. if i = 3 then FlushRaises else AppendOk)\<rparr>"

definition csv_run0 :: csv_run where
  "csv_run0 = \<lparr>cr_existing_titles = {}, cr_new_master = [], cr_new_entries = [],
               cr_catalog_file = None\<rparr>"

definition upd_run0 :: upd_run where
  "upd_run0 = \<lparr>us_existing_titles = {}, us_added = 0, us_appended = [], us_unflushed = [],
               us_fetched = []\<rparr>"

definition cand4 :: candidate where
  "cand4 = \<lparr>c_date = ''Dec 31, 2024'', c_title = ''Circular D'', c_link = ''/d''\<rparr>"

text \<open>A listing page with one row, whose title holds a backslash: \<open>Circular A\B\<close>.\<close>

definition title_backslash :: string where
  "title_backslash = ''Circular A'' @ [CHR 0x5C] @ ''B''"

definition page_backslash :: listing_page where
  "page_backslash =
     \<lparr>lp_table = Some \<lparr>tbody_trs =
         [\<lparr>tds = [''Jan 05, 2025'', title_backslash],
           row_link = Some \<lparr>a_text = title_backslash, a_href = Some ''/ab''\<rparr>\<rparr>],
        all_trs = []\<rparr>,
      lp_anchors = []\<rparr>"

text \<open>A catalog file with one row whose \<open>pdf_filename\<close> field is empty.\<close>

definition catalog_blank_filename :: string where
  "catalog_blank_filename =
     ''id|date|title|link|pdf_link|pdf_filename|pdf_downloaded|created_at|source_commit'' @ [LF] @
     ''x1|Jan 02, 2025|Circular A|/a|||no|2025-01-02T00:00:00Z|'' @ [LF]"

definition row_blank_filename :: entry where
  "row_blank_filename =
     \<lparr>en_id = ''x1'', en_date = ''Jan 02, 2025'', en_title = ''Circular A'', en_link = ''/a'',
      en_pdf_link = [], en_pdf_filename = [], en_pdf_downloaded = ''no'',
      en_created_at = ''2025-01-02T00:00:00Z'', en_source_commit = []\<rparr>"




text \<open>
  A detail page that does not change while it is read: its document has one element, an
  \<open>iframe\<close> that shows a viewer page, and no hyperlink. Its frames are the main frame
  (the page's own address and answers) and the frame of the viewer, whose document has a
  hyperlink with \<open>.pdf\<close> before a query string: of the eight selectors of
  \<open>find_pdf_url_on_page\<close> only \<open>a[href*='.pdf']\<close> finds it.
\<close>

definition frame_with_query_link :: frame where
  "frame_with_query_link =
     \<lparr>fr_url = ''https://www.sebi.gov.in/reader.html'',
      fr_query_selector =
        (\<lambda>sel. if sel = ''a[href*='.pdf']''
                then Inr (Some \<lparr>el_attrs = [(''href'', ''/files/c3.pdf?download=1'')],
                                 el_text = ''Download''\<rparr>)
                else Inr None)\<rparr>"

definition page_frame_with_query_link :: detail_page where
  "page_frame_with_query_link =
     \<lparr>dp_url = ''https://www.sebi.gov.in/legal/circulars/c3.html'',
      dp_query_selector = (\<lambda>sel. None),
      dp_query_selector_all =
        (\<lambda>sel. if sel = ''*'' \<or> sel = ''iframe''
                then [\<lparr>el_attrs = [(''src'', ''/reader.html'')], el_text = []\<rparr>]
                else []),
      dp_frames =
        [\<lparr>fr_url = ''https://www.sebi.gov.in/legal/circulars/c3.html'',
          fr_query_selector = (\<lambda>sel. Inr None)\<rparr>,
         frame_with_query_link]\<rparr>"

text \<open>The same frame with a document without the hyperlink.\<close>

definition frame_without_link :: frame where
  "frame_without_link = frame_with_query_link\<lparr>fr_query_selector := (\<lambda>sel. Inr None)\<rparr>"

text \<open>
  A detail page that does not change while it is read, with no hyperlink and a frame
  whose own address is a document.
\<close>

definition page_static_frame :: detail_page where
  "page_static_frame =
     \<lparr>dp_url = ''https://www.sebi.gov.in/legal/circulars/c4.html'',
      dp_query_selector = (\<lambda>sel. None),
      dp_query_selector_all =
        (\<lambda>sel. if sel = ''*'' \<or> sel = ''iframe''
                then [\<lparr>el_attrs = [(''name'', ''doc'')], el_text = []\<rparr>]
                else []),
      dp_frames =
        [\<lparr>fr_url = ''https://www.sebi.gov.in/legal/circulars/c4.html'',
          fr_query_selector = (\<lambda>sel. Inr None)\<rparr>,
         \<lparr>fr_url = ''https://www.sebi.gov.in/frame/c4.pdf'',
          fr_query_selector = (\<lambda>sel. Inr None)\<rparr>]\<rparr>"


text \<open>
  The candidate of the page with the backslash, the row a run makes of it when loading
  its detail page times out, and the catalog texts after a first and a second run.
\<close>

definition cand_backslash :: candidate where
  "cand_backslash = \<lparr>c_date = ''Jan 05, 2025'', c_title = title_backslash, c_link = ''/ab''\<rparr>"

definition title_backslash2 :: string where
  "title_backslash2 = ''Circular A'' @ [CHR 0x5C] @ [CHR 0x5C] @ ''B''"

definition title_backslash4 :: string where
  "title_backslash4 = ''Circular A'' @ [CHR 0x5C] @ [CHR 0x5C] @ [CHR 0x5C] @ [CHR 0x5C] @ ''B''"

definition row_backslash :: entry where
  "row_backslash =
     \<lparr>en_id = ''h29'', en_date = ''Jan 05, 2025'', en_title = title_backslash, en_link = ''/ab'',
      en_pdf_link = [], en_pdf_filename = ''Circular A_B.pdf'', en_pdf_downloaded = ''no'',
      en_created_at = ''2025-01-03T00:00:00Z'', en_source_commit = []\<rparr>"

definition HEADER_LINE :: string where
  "HEADER_LINE = ''id|date|title|link|pdf_link|pdf_filename|pdf_downloaded|created_at|source_commit''"

definition catalog_run1 :: string where
  "catalog_run1 =
     HEADER_LINE @ [LF] @
     ''h29|Jan 05, 2025|Circular A'' @ [CHR 0x5C] @ [CHR 0x5C] @ ''B|/ab||Circular A_B.pdf|no|2025-01-03T00:00:00Z|'' @ [LF]"

definition catalog_run2 :: string where
  "catalog_run2 =
     HEADER_LINE @ [LF] @
     ''h29|Jan 05, 2025|Circular A'' @ [CHR 0x5C] @ [CHR 0x5C] @ [CHR 0x5C] @ [CHR 0x5C] @ ''B|/ab||Circular A_B.pdf|no|2025-01-03T00:00:00Z|'' @ [LF] @
     ''h29|Jan 05, 2025|Circular A'' @ [CHR 0x5C] @ [CHR 0x5C] @ ''B|/ab||Circular A_B.pdf|no|2025-01-03T00:00:00Z|'' @ [LF]"

definition catalog_filled_filename :: string where
  "catalog_filled_filename =
     HEADER_LINE @ [LF] @
     ''x1|Jan 02, 2025|Circular A|/a||document.pdf|no|2025-01-02T00:00:00Z|'' @ [LF]"

text \<open>
  A listing page whose one row has the title that \<open>load_master_csv\<close> reads from the
  catalog of the first run (two backslashes), and the catalog text a run on that page
  writes from it.
\<close>

definition page_backslash2 :: listing_page where
  "page_backslash2 =
     \<lparr>lp_table = Some \<lparr>tbody_trs =
         [\<lparr>tds = [''Jan 05, 2025'', title_backslash2],
           row_link = Some \<lparr>a_text = title_backslash2, a_href = Some ''/ab''\<rparr>\<rparr>],
        all_trs = []\<rparr>,
      lp_anchors = []\<rparr>"

definition cand_backslash2 :: candidate where
  "cand_backslash2 = \<lparr>c_date = ''Jan 05, 2025'', c_title = title_backslash2, c_link = ''/ab''\<rparr>"

definition catalog_rewritten :: string where
  "catalog_rewritten =
     HEADER_LINE @ [LF] @
     ''h29|Jan 05, 2025|Circular A'' @ [CHR 0x5C] @ [CHR 0x5C] @ [CHR 0x5C] @ [CHR 0x5C] @ ''B|/ab||Circular A_B.pdf|no|2025-01-03T00:00:00Z|'' @ [LF]"



section \<open>Properties of the string primitives and of the filename derivation\<close>

lemma set_sub_runs: "c \<in> set (sub_runs p r s) \<Longrightarrow> c = r \<or> (c \<in> set s \<and> \<not> p c)"
proof (induction p r s rule: sub_runs.induct)
  case (1 p r)
  then show ?case by simp
next
  case (2 p r c cs)
  then show ?case
    by (auto split: if_splits dest: set_dropWhileD)
qed

lemma length_sub_runs: "length (sub_runs p r s) \<le> length s"
proof (induction p r s rule: sub_runs.induct)
  case (1 p r)
  then show ?case by simp
next
  case (2 p r c cs)
  have "length (dropWhile p cs) \<le> length cs" by (rule length_dropWhile_le)
  with 2 show ?case by (auto split: if_splits)
qed

lemma set_strip: "c \<in> set (strip s) \<Longrightarrow> c \<in> set s"
  unfolding strip_def by (auto dest!: set_dropWhileD)

lemma length_strip: "length (strip s) \<le> length s"
proof -
  have "length (strip s) \<le> length (dropWhile is_space s)"
    unfolding strip_def using length_dropWhile_le [of is_space "rev (dropWhile is_space s)"] by simp
  also have "\<dots> \<le> length s" by (rule length_dropWhile_le)
  finally show ?thesis .
qed

lemma lower_pdf: "lower (b @ ''.pdf'') = lower b @ ''.pdf''"
  by (simp add: lower_def lower_char_def)

lemma endswith_append: "endswith (b @ s) s"
  by (simp add: endswith_def)

lemma is_space_CR: "is_space CR" and is_space_LF: "is_space LF"
  by (simp_all add: is_space_def CR_def LF_def)

lemma ok_SP: "name_char_ok SP" and ok_underscore: "name_char_ok (CHR ''_'')"
  by (simp_all add: name_char_ok_def is_forbidden_def SP_def LF_def CR_def)

lemma ok_pdf: "c \<in> set ''.pdf'' \<Longrightarrow> name_char_ok c"
  by (auto simp add: name_char_ok_def is_forbidden_def LF_def CR_def)

text \<open>The sanitising prefix shared by both functions.\<close>
lemma sanitised_ok:
  assumes "c \<in> set (sub_runs is_space SP (sub_runs is_forbidden (CHR ''_'') s))"
  shows "name_char_ok c"
proof -
  from set_sub_runs [OF assms] show ?thesis
  proof
    assume "c = SP" then show ?thesis by (simp add: ok_SP)
  next
    assume a: "c \<in> set (sub_runs is_forbidden (CHR ''_'') s) \<and> \<not> is_space c"
    then have ns: "c \<noteq> CR" "c \<noteq> LF" using is_space_CR is_space_LF by auto
    from a set_sub_runs [of c is_forbidden "CHR ''_''" s]
    have "c = CHR ''_'' \<or> \<not> is_forbidden c" by blast
    then show ?thesis using ns ok_underscore by (auto simp: name_char_ok_def)
  qed
qed

lemma safe_filename_csv_eq:
  "safe_filename_csv t fb =
     (if \<not> endswith (lower (csv_base t fb)) ''.pdf'' then csv_base t fb @ ''.pdf'' else csv_base t fb)"
  unfolding safe_filename_csv_def Let_def csv_base_def by (rule refl)

lemma base_ok:
  assumes "c \<in> set (strip (take n (sub_runs is_space SP (sub_runs is_forbidden (CHR ''_'') s))))"
  shows "name_char_ok c"
proof -
  from assms have "c \<in> set (take n (sub_runs is_space SP (sub_runs is_forbidden (CHR ''_'') s)))"
    by (rule set_strip)
  then have "c \<in> set (sub_runs is_space SP (sub_runs is_forbidden (CHR ''_'') s))"
    by (rule in_set_takeD)
  then show ?thesis by (rule sanitised_ok)
qed

lemma csv_base_ok: "c \<in> set (csv_base t fb) \<Longrightarrow> name_char_ok c"
  unfolding csv_base_def by (rule base_ok)

lemma csv_base_length: "length (csv_base t fb) \<le> 150"
  unfolding csv_base_def using length_strip [of "take 150 x" for x]
  by (metis length_take min.cobounded2 order_trans)

lemma safe_filename_csv_chars:
  assumes "c \<in> set (safe_filename_csv t fb)"
  shows "name_char_ok c"
proof -
  from assms have "c \<in> set (csv_base t fb) \<or> c \<in> set ''.pdf''"
    unfolding safe_filename_csv_eq by (auto split: if_splits)
  then show ?thesis using csv_base_ok ok_pdf by blast
qed

lemma safe_filename_csv_length: "length (safe_filename_csv t fb) \<le> 154"
  using csv_base_length [of t fb] unfolding safe_filename_csv_eq by simp

lemma safe_filename_csv_suffix: "endswith (lower (safe_filename_csv t fb)) ''.pdf''"
  unfolding safe_filename_csv_eq by (simp add: lower_pdf endswith_append)

lemma ok_document: "c \<in> set ''document'' \<Longrightarrow> name_char_ok c"
  by (auto simp add: name_char_ok_def is_forbidden_def LF_def CR_def)

lemma safe_filename_upd_cases:
  "safe_filename_upd s fb = fb \<or>
   safe_filename_upd s fb = take 180 (sub_runs is_space SP (sub_runs is_forbidden (CHR ''_'')
       (replace_char CR SP (replace_char LF SP (strip s)))))"
  unfolding safe_filename_upd_def Let_def by (rule if_split [THEN iffD2]) blast

lemma safe_filename_upd_length:
  assumes "length fb \<le> 180"
  shows "length (safe_filename_upd s fb) \<le> 180"
  using safe_filename_upd_cases [of s fb] assms by (elim disjE) simp_all

lemma safe_filename_upd_chars:
  assumes "\<And>c. c \<in> set fb \<Longrightarrow> name_char_ok c" and "c \<in> set (safe_filename_upd s fb)"
  shows "name_char_ok c"
  using safe_filename_upd_cases [of s fb]
proof
  assume "safe_filename_upd s fb = fb"
  with assms show ?thesis by simp
next
  assume e: "safe_filename_upd s fb = take 180 (sub_runs is_space SP (sub_runs is_forbidden (CHR ''_'')
       (replace_char CR SP (replace_char LF SP (strip s)))))"
  from assms(2) have "c \<in> set (sub_runs is_space SP (sub_runs is_forbidden (CHR ''_'')
       (replace_char CR SP (replace_char LF SP (strip s)))))"
    unfolding e by (rule in_set_takeD)
  then show ?thesis by (rule sanitised_ok)
qed

lemma title_name_length: "length (safe_filename_upd t ''document'') \<le> 180"
  by (rule safe_filename_upd_length) simp

lemma title_name_chars: "c \<in> set (safe_filename_upd t ''document'') \<Longrightarrow> name_char_ok c"
  using safe_filename_upd_chars [of "''document''" c t] ok_document by blast

lemma choose_name_chars:
  assumes "c \<in> set (choose_name_for_pdf n t)"
  shows "name_char_ok c"
proof (cases "n \<noteq> [] \<and> CHR ''.'' \<in> set n")
  case True
  with assms have "c \<in> set (safe_filename_upd n (safe_filename_upd t ''document''))"
    by (simp add: choose_name_for_pdf_def)
  then show ?thesis
    using safe_filename_upd_chars [of "safe_filename_upd t ''document''" c n] title_name_chars by blast
next
  case False
  with assms have "c \<in> set (safe_filename_upd t ''document'') \<or> c \<in> set ''.pdf''"
    by (auto simp add: choose_name_for_pdf_def)
  then show ?thesis using title_name_chars ok_pdf by blast
qed

lemma lower_append: "lower (a @ b) = lower a @ lower b"
  by (simp add: lower_def)

lemma lower_pdf_lit: "lower ''.pdf'' = ''.pdf''"
  by (simp add: lower_def lower_char_def)

lemma endswith_append2: "endswith (a @ b @ s) s"
  using endswith_append [of "a @ b" s] by simp

lemma dest_path_for_props:
  "(dest_path_for n t = ''pdfs.pdf'' \<or>
    dest_path_for n t = ''pdfs/'' @ choose_name_for_pdf n t \<or>
    dest_path_for n t = ''pdfs/'' @ choose_name_for_pdf n t @ ''.pdf'') \<and>
   length (dest_path_for n t) \<le> 189 \<and>
   endswith (lower (dest_path_for n t)) ''.pdf''"
proof (cases "n \<noteq> [] \<and> CHR ''.'' \<in> set n")
  case True
  define sn where "sn = choose_name_for_pdf n t"
  have sn: "sn = safe_filename_upd n (safe_filename_upd t ''document'')"
    using True by (simp add: sn_def choose_name_for_pdf_def)
  have len: "length sn \<le> 180"
    unfolding sn by (rule safe_filename_upd_length) (rule title_name_length)
  have lj: "length (pdf_dir_join sn) \<le> 185"
    using len by (simp add: pdf_dir_join_def)
  have d: "dest_path_for n t =
      (if \<not> endswith (lower (pdf_dir_join sn)) ''.pdf'' then pdf_dir_join sn @ ''.pdf'' else pdf_dir_join sn)"
    by (simp add: dest_path_for_def sn_def)
  show ?thesis
  proof (cases "endswith (lower (pdf_dir_join sn)) ''.pdf''")
    case e: True
    then have "sn \<noteq> [] \<and> sn \<noteq> ''.''"
      by (auto simp add: pdf_dir_join_def lower_def lower_char_def endswith_def)
    then have "pdf_dir_join sn = ''pdfs/'' @ sn" by (simp add: pdf_dir_join_def)
    with e d lj show ?thesis by (simp add: sn_def)
  next
    case e: False
    then have d': "dest_path_for n t = pdf_dir_join sn @ ''.pdf''" using d by simp
    have "pdf_dir_join sn = ''pdfs'' \<or> pdf_dir_join sn = ''pdfs/'' @ sn"
      by (simp add: pdf_dir_join_def)
    moreover have "endswith (lower (x @ ''.pdf'')) ''.pdf''" for x
      by (simp only: lower_append lower_pdf_lit endswith_append)
    ultimately show ?thesis using d' lj by (auto simp add: sn_def)
  qed
next
  case False
  define y where "y = safe_filename_upd t ''document''"
  have sn: "choose_name_for_pdf n t = y @ ''.pdf''"
    using False by (auto simp add: y_def choose_name_for_pdf_def)
  have len: "length y \<le> 180" unfolding y_def by (rule title_name_length)
  have j: "pdf_dir_join (y @ ''.pdf'') = ''pdfs/'' @ y @ ''.pdf''"
    by (simp add: pdf_dir_join_def)
  have e: "endswith (lower (''pdfs/'' @ y @ ''.pdf'')) ''.pdf''"
    using endswith_append2 [of "lower ''pdfs/''" "lower y" "''.pdf''"]
    by (simp only: lower_append lower_pdf_lit)
  have "dest_path_for n t = ''pdfs/'' @ y @ ''.pdf''"
    using e by (simp add: dest_path_for_def sn j)
  then show ?thesis using len e sn by simp
qed

section \<open>safe_filename on its own results\<close>

lemma runs_normal_Cons:
  "runs_normal p r (c # s) = ((p c \<longrightarrow> c = r \<and> (s \<noteq> [] \<longrightarrow> \<not> p (hd s))) \<and> runs_normal p r s)"
  by (cases s) auto

lemma runs_normal_take: "runs_normal p r s \<Longrightarrow> runs_normal p r (take n s)"
proof (induction s arbitrary: n)
  case Nil
  then show ?case by simp
next
  case (Cons c s)
  show ?case
  proof (cases n)
    case 0
    then show ?thesis by simp
  next
    case (Suc m)
    from Cons.prems have a: "p c \<longrightarrow> c = r \<and> (s \<noteq> [] \<longrightarrow> \<not> p (hd s))" and b: "runs_normal p r s"
      by (simp_all add: runs_normal_Cons)
    have "take m s \<noteq> [] \<longrightarrow> hd (take m s) = hd s" by (cases s; cases m) auto
    moreover have "take m s \<noteq> [] \<longrightarrow> s \<noteq> []" by auto
    ultimately show ?thesis using a Cons.IH [OF b, of m] Suc
      by (simp add: runs_normal_Cons)
  qed
qed

lemma runs_normal_drop: "runs_normal p r s \<Longrightarrow> runs_normal p r (drop n s)"
proof (induction s arbitrary: n)
  case Nil
  then show ?case by simp
next
  case (Cons c s)
  then show ?case by (cases n) (simp_all add: runs_normal_Cons)
qed

lemma runs_normal_append:
  "runs_normal p r a \<Longrightarrow> runs_normal p r b \<Longrightarrow> (a \<noteq> [] \<longrightarrow> \<not> p (last a)) \<Longrightarrow>
   runs_normal p r (a @ b)"
proof (induction a)
  case Nil
  then show ?case by simp
next
  case (Cons c a)
  then show ?case
    by (cases a) (auto simp add: runs_normal_Cons)
qed

lemma sub_runs_normal: "p r \<Longrightarrow> runs_normal p r (sub_runs p r s)"
proof (induction p r s rule: sub_runs.induct)
  case (1 p r)
  then show ?case by simp
next
  case (2 p r c cs)
  show ?case
  proof (cases "p c")
    case True
    have ih: "runs_normal p r (sub_runs p r (dropWhile p cs))" using 2 True by simp
    have "sub_runs p r (dropWhile p cs) \<noteq> [] \<longrightarrow> \<not> p (hd (sub_runs p r (dropWhile p cs)))"
    proof (cases "dropWhile p cs")
      case Nil
      show ?thesis unfolding Nil by simp
    next
      case (Cons d ds)
      then have "\<not> p d" using hd_dropWhile [of p cs] by auto
      then show ?thesis unfolding Cons by simp
    qed
    with ih True show ?thesis by (simp add: runs_normal_Cons)
  next
    case False
    with 2 show ?thesis by (simp add: runs_normal_Cons)
  qed
qed

lemma sub_runs_normal_id: "runs_normal p r s \<Longrightarrow> sub_runs p r s = s"
proof (induction p r s rule: sub_runs.induct)
  case (1 p r)
  then show ?case by simp
next
  case (2 p r c cs)
  show ?case
  proof (cases "p c")
    case True
    from 2(3) True have c: "c = r" and n: "cs \<noteq> [] \<longrightarrow> \<not> p (hd cs)" and rn: "runs_normal p r cs"
      by (simp_all add: runs_normal_Cons)
    from n have d: "dropWhile p cs = cs" by (cases cs) auto
    from 2(1) [OF True] rn d have "sub_runs p r cs = cs" by simp
    with True c d show ?thesis by simp
  next
    case False
    from 2(3) have "runs_normal p r cs" by (simp add: runs_normal_Cons)
    with 2(2) [OF False] False show ?thesis by simp
  qed
qed

lemma sub_runs_none: "(\<And>c. c \<in> set s \<Longrightarrow> \<not> p c) \<Longrightarrow> sub_runs p r s = s"
  by (induction s) auto

lemma replace_char_none: "a \<notin> set s \<Longrightarrow> replace_char a b s = s"
  by (induction s) (auto simp add: replace_char_def)

lemma dropWhile_hd_id: "s \<noteq> [] \<Longrightarrow> \<not> p (hd s) \<Longrightarrow> dropWhile p s = s"
  by (cases s) auto

lemma strip_id:
  assumes "s \<noteq> []" and "\<not> is_space (hd s)" and "\<not> is_space (last s)"
  shows "strip s = s"
proof -
  have 1: "dropWhile is_space s = s" using assms by (simp add: dropWhile_hd_id)
  have "rev s \<noteq> []" "\<not> is_space (hd (rev s))" using assms by (simp_all add: hd_rev)
  then have 2: "dropWhile is_space (rev s) = rev s" by (rule dropWhile_hd_id)
  show ?thesis unfolding strip_def 1 2 by simp
qed

lemma strip_take_drop: "\<exists>j k. strip s = take k (drop j s)"
proof -
  define t where "t = dropWhile is_space s"
  have 1: "t = drop (length (takeWhile is_space s)) s"
    unfolding t_def by (rule dropWhile_eq_drop)
  have "dropWhile is_space (rev t) = drop (length (takeWhile is_space (rev t))) (rev t)"
    by (rule dropWhile_eq_drop)
  then have "rev (dropWhile is_space (rev t)) = take (length t - length (takeWhile is_space (rev t))) t"
    by (simp add: rev_drop)
  then have "strip s = take (length t - length (takeWhile is_space (rev t))) (drop (length (takeWhile is_space s)) s)"
    unfolding strip_def t_def [symmetric] using 1 by simp
  then show ?thesis by blast
qed

lemma last_dropWhile: "dropWhile p s \<noteq> [] \<Longrightarrow> last (dropWhile p s) = last s"
  by (induction s) (auto split: if_splits)

lemma strip_ends:
  assumes "strip s \<noteq> []"
  shows "\<not> is_space (hd (strip s)) \<and> \<not> is_space (last (strip s))"
proof -
  define t where "t = dropWhile is_space s"
  define u where "u = dropWhile is_space (rev t)"
  have s: "strip s = rev u" by (simp add: strip_def t_def u_def)
  with assms have u: "u \<noteq> []" by simp
  then have t: "t \<noteq> []" unfolding u_def by auto
  have "\<not> is_space (hd u)" using u unfolding u_def by (rule hd_dropWhile)
  then have a: "\<not> is_space (last (strip s))" using u s by (simp add: last_rev)
  have "last u = last (rev t)" using u unfolding u_def by (rule last_dropWhile)
  then have "hd (strip s) = hd t" using u t s by (simp add: hd_rev last_rev)
  moreover have "\<not> is_space (hd t)" using t unfolding t_def by (rule hd_dropWhile)
  ultimately show ?thesis using a by simp
qed

lemma runs_normal_strip: "runs_normal p r s \<Longrightarrow> runs_normal p r (strip s)"
proof -
  assume a: "runs_normal p r s"
  obtain j k where "strip s = take k (drop j s)" using strip_take_drop by blast
  then show ?thesis using a by (simp add: runs_normal_take runs_normal_drop)
qed

lemma runs_normal_member: "runs_normal p r s \<Longrightarrow> c \<in> set s \<Longrightarrow> p c \<Longrightarrow> c = r"
  by (induction s) (auto simp add: runs_normal_Cons)

lemma is_space_SP: "is_space SP"
  by (simp add: is_space_def SP_def)

lemma not_space_pdf: "c \<in> set ''.pdf'' \<Longrightarrow> \<not> is_space c"
  by (auto simp add: is_space_def)

lemma not_forbidden_pdf: "c \<in> set ''.pdf'' \<Longrightarrow> \<not> is_forbidden c"
  by (auto simp add: is_forbidden_def)

lemma pdf_chars_plain: "c \<in> set ''.pdf'' \<Longrightarrow> \<not> is_space c \<and> \<not> is_forbidden c"
  using not_space_pdf not_forbidden_pdf by blast

lemma runs_normal_no_space: "(\<And>c. c \<in> set s \<Longrightarrow> \<not> p c) \<Longrightarrow> runs_normal p r s"
  by (induction s) (auto simp add: runs_normal_Cons)

text \<open>Appending a suffix of non-space, non-forbidden characters keeps a name clean.\<close>

lemma clean_name_append:
  assumes "b = [] \<or> clean_name b" and "\<And>c. c \<in> set x \<Longrightarrow> \<not> is_space c \<and> \<not> is_forbidden c"
    and "b @ x \<noteq> []"
  shows "clean_name (b @ x)"
proof -
  have rx: "runs_normal is_space SP x" using assms(2) by (intro runs_normal_no_space) blast
  show ?thesis
  proof (cases "b = []")
    case True
    with assms have "x \<noteq> []" by simp
    then have "hd x \<in> set x" "last x \<in> set x" by simp_all
    with assms(2) True rx \<open>x \<noteq> []\<close> show ?thesis by (auto simp add: clean_name_def)
  next
    case False
    with assms(1) have c: "clean_name b" by simp
    have "runs_normal is_space SP (b @ x)"
      using c rx by (intro runs_normal_append) (auto simp add: clean_name_def)
    moreover have "\<not> is_space (last (b @ x))"
    proof (cases "x = []")
      case True
      with c show ?thesis by (simp add: clean_name_def)
    next
      case False
      then have "last x \<in> set x" by simp
      with assms(2) False show ?thesis by simp
    qed
    ultimately show ?thesis using c False assms(2) by (auto simp add: clean_name_def)
  qed
qed

lemma csv_base_clean: "csv_base t fb = [] \<or> clean_name (csv_base t fb)"
proof (cases "csv_base t fb = []")
  case True
  then show ?thesis by simp
next
  case False
  have "runs_normal is_space SP (csv_base t fb)"
    unfolding csv_base_def
    by (intro runs_normal_strip runs_normal_take sub_runs_normal is_space_SP)
  moreover have "\<not> is_space (hd (csv_base t fb)) \<and> \<not> is_space (last (csv_base t fb))"
    using False unfolding csv_base_def by (rule strip_ends)
  moreover have "\<forall>c\<in>set (csv_base t fb). \<not> is_forbidden c"
    using csv_base_ok [of _ t fb] by (auto simp add: name_char_ok_def)
  ultimately show ?thesis using False by (simp add: clean_name_def)
qed

text \<open>On a clean name the sanitising steps change nothing: only the truncation is left.\<close>

lemma csv_base_of_clean:
  assumes "clean_name y"
  shows "csv_base y fb = strip (take 150 y)"
proof -
  from assms have ne: "y \<noteq> []" and st: "strip y = y"
    by (auto simp add: clean_name_def intro: strip_id)
  from assms have rn: "runs_normal is_space SP y" and nf: "\<And>c. c \<in> set y \<Longrightarrow> \<not> is_forbidden c"
    by (auto simp add: clean_name_def)
  have "CR \<notin> set y"
    using runs_normal_member [OF rn, of CR] is_space_CR by (auto simp add: CR_def SP_def)
  moreover have "LF \<notin> set y"
    using runs_normal_member [OF rn, of LF] is_space_LF by (auto simp add: LF_def SP_def)
  ultimately have r: "replace_char LF SP (replace_char CR SP y) = y"
    by (simp add: replace_char_none)
  have f: "sub_runs is_forbidden (CHR ''_'') y = y" using nf by (rule sub_runs_none)
  have s: "sub_runs is_space SP y = y" using rn by (rule sub_runs_normal_id)
  show ?thesis unfolding csv_base_def using ne by (simp add: st r f s)
qed

lemma endswith_last: "endswith s suf \<Longrightarrow> suf \<noteq> [] \<Longrightarrow> last s = last suf"
proof -
  assume a: "endswith s suf" and n: "suf \<noteq> []"
  then have d: "drop (length s - length suf) s = suf" and l: "length suf \<le> length s"
    by (simp_all add: endswith_def)
  from n l have "length s - length suf < length s" by (cases suf) auto
  then have "last (drop (length s - length suf) s) = last s" by (rule last_drop)
  with d show ?thesis by simp
qed

lemma endswith_nonempty: "endswith s ''.pdf'' \<Longrightarrow> s \<noteq> []"
  by (auto simp add: endswith_def)

text \<open>A clean name of at most 150 characters that ends in \<open>.pdf\<close> is a fixed point.\<close>

lemma safe_filename_csv_fixed_short:
  assumes "clean_name y" and "length y \<le> 150" and "endswith (lower y) ''.pdf''"
  shows "safe_filename_csv y fb = y"
proof -
  have "csv_base y fb = strip (take 150 y)" using assms(1) by (rule csv_base_of_clean)
  also have "\<dots> = strip y" using assms(2) by simp
  also have "\<dots> = y" using assms(1) by (auto simp add: clean_name_def intro: strip_id)
  finally have "csv_base y fb = y" .
  then show ?thesis using assms(3) by (simp add: safe_filename_csv_eq)
qed

text \<open>A clean name of exactly 150 characters that does not end in \<open>.pdf\<close>, with the suffix.\<close>

lemma safe_filename_csv_fixed_full:
  assumes "clean_name b" and "length b = 150" and "\<not> endswith (lower b) ''.pdf''"
  shows "safe_filename_csv (b @ ''.pdf'') fb = b @ ''.pdf''"
proof -
  have c: "clean_name (b @ ''.pdf'')"
    using assms(1) pdf_chars_plain by (intro clean_name_append) simp_all
  have "csv_base (b @ ''.pdf'') fb = strip (take 150 (b @ ''.pdf''))"
    using c by (rule csv_base_of_clean)
  also have "\<dots> = strip b" using assms(2) by simp
  also have "\<dots> = b" using assms(1) by (auto simp add: clean_name_def intro: strip_id)
  finally have "csv_base (b @ ''.pdf'') fb = b" .
  then show ?thesis using assms(3) by (simp add: safe_filename_csv_eq)
qed

lemma safe_filename_csv_clean: "clean_name (safe_filename_csv t fb)"
proof (cases "endswith (lower (csv_base t fb)) ''.pdf''")
  case True
  then have "lower (csv_base t fb) \<noteq> []" by (rule endswith_nonempty)
  then have "csv_base t fb \<noteq> []" by (auto simp add: lower_def)
  with csv_base_clean [of t fb] True show ?thesis by (simp add: safe_filename_csv_eq)
next
  case False
  have "clean_name (csv_base t fb @ ''.pdf'')"
    using csv_base_clean [of t fb] pdf_chars_plain by (intro clean_name_append) simp_all
  with False show ?thesis by (simp add: safe_filename_csv_eq)
qed

lemma not_endswith_cut_suffix:
  assumes "x = ''.'' \<or> x = ''.p'' \<or> x = ''.pd''"
  shows "\<not> endswith (lower (b @ x)) ''.pdf''"
proof
  assume "endswith (lower (b @ x)) ''.pdf''"
  then have "last (lower (b @ x)) = last ''.pdf''" by (rule endswith_last) simp
  moreover have "last (lower (b @ x)) = last (lower x)"
    using assms by (auto simp add: lower_append lower_def)
  ultimately show False using assms by (auto simp add: lower_def lower_char_def)
qed

text \<open>
  What \<open>safe_filename\<close> of sebi_make_two_csvs.py returns on its own result is a fixed
  point of \<open>safe_filename\<close>, whatever the fallbacks.
\<close>

lemma safe_filename_csv_stable:
  "safe_filename_csv (safe_filename_csv (safe_filename_csv t fb) fb2) fb3 =
   safe_filename_csv (safe_filename_csv t fb) fb2"
proof -
  define b where "b = csv_base t fb"
  define y where "y = safe_filename_csv t fb"
  have yc: "clean_name y" unfolding y_def by (rule safe_filename_csv_clean)
  have ys: "endswith (lower y) ''.pdf''" unfolding y_def by (rule safe_filename_csv_suffix)
  have bl: "length b \<le> 150" unfolding b_def by (rule csv_base_length)
  have short: "safe_filename_csv (safe_filename_csv y fb2) fb3 = safe_filename_csv y fb2"
    if "length y \<le> 150"
  proof -
    have "safe_filename_csv y fb2 = y" using yc that ys by (rule safe_filename_csv_fixed_short)
    moreover have "safe_filename_csv y fb3 = y" using yc that ys by (rule safe_filename_csv_fixed_short)
    ultimately show ?thesis by simp
  qed
  show ?thesis
  proof (cases "endswith (lower b) ''.pdf''")
    case True
    then have "y = b" by (simp add: y_def b_def safe_filename_csv_eq)
    with bl have "length y \<le> 150" by simp
    then show ?thesis using short by (simp add: y_def)
  next
    case False
    then have yb: "y = b @ ''.pdf''" by (simp add: y_def b_def safe_filename_csv_eq)
    show ?thesis
    proof (cases "length b \<le> 146")
      case True
      with yb have "length y \<le> 150" by simp
      then show ?thesis using short by (simp add: y_def)
    next
      case long: False
      then have bne: "b \<noteq> []" by auto
      with csv_base_clean [of t fb] have bc: "clean_name b" by (simp add: b_def)
      define x where "x = take (150 - length b) ''.pdf''"
      have "length b = 150 \<or> length b = 149 \<or> length b = 148 \<or> length b = 147"
        using long bl by arith
      then have xs: "x = [] \<or> x = ''.'' \<or> x = ''.p'' \<or> x = ''.pd''"
        unfolding x_def by (elim disjE) simp_all
      have "length x = 150 - length b" using long unfolding x_def by simp
      then have "length (b @ x) = length b + (150 - length b)" by simp
      also have "\<dots> = 150" using bl by (rule le_add_diff_inverse)
      finally have xl: "length (b @ x) = 150" .
      have tk: "take 150 y = b @ x" unfolding yb x_def using bl by simp
      have xc: "clean_name (b @ x)"
      proof (rule clean_name_append)
        show "b = [] \<or> clean_name b" using bc by simp
        show "\<not> is_space c \<and> \<not> is_forbidden c" if "c \<in> set x" for c
        proof -
          from that have "c \<in> set ''.pdf''" unfolding x_def by (rule in_set_takeD)
          then show ?thesis by (rule pdf_chars_plain)
        qed
        show "b @ x \<noteq> []" using bne by simp
      qed
      then have sx: "strip (b @ x) = b @ x" by (auto simp add: clean_name_def intro: strip_id)
      have ne: "\<not> endswith (lower (b @ x)) ''.pdf''"
      proof (cases "x = []")
        case True
        with False show ?thesis by simp
      next
        case False
        with xs have "x = ''.'' \<or> x = ''.p'' \<or> x = ''.pd''" by simp
        then show ?thesis by (rule not_endswith_cut_suffix)
      qed
      have "csv_base y fb2 = strip (take 150 y)" using yc by (rule csv_base_of_clean)
      then have "csv_base y fb2 = b @ x" by (simp add: tk sx)
      then have z: "safe_filename_csv y fb2 = (b @ x) @ ''.pdf''"
        using ne by (simp add: safe_filename_csv_eq)
      have "safe_filename_csv ((b @ x) @ ''.pdf'') fb3 = (b @ x) @ ''.pdf''"
        using xc xl ne by (rule safe_filename_csv_fixed_full)
      then show ?thesis unfolding y_def [symmetric] z .
    qed
  qed
qed

section \<open>The listing extractors\<close>

lemma table_loop_csv_titles: "c \<in> set (table_loop_csv L rs) \<Longrightarrow> c_title c \<noteq> []"
  by (induction rs) (auto split: if_splits)

lemma table_loop_upd_fields:
  "c \<in> set (table_loop_upd L rs) \<Longrightarrow> c_title c \<noteq> [] \<or> c_date c \<noteq> []"
  by (induction rs) (auto split: if_splits)

lemma anchor_loop_titles: "c \<in> set (anchor_loop L as seen) \<Longrightarrow> c_title c \<noteq> []"
  by (induction as arbitrary: seen) (auto simp: Let_def split: if_splits)

lemma extract_entries_from_listing_titles:
  "c \<in> set (extract_entries_from_listing L page) \<Longrightarrow> c_title c \<noteq> []"
  unfolding extract_entries_from_listing_def
  by (cases "lp_table page") (auto dest: table_loop_csv_titles anchor_loop_titles)

lemma extract_entries_from_table_fields:
  "c \<in> set (extract_entries_from_table L page) \<Longrightarrow> c_title c \<noteq> [] \<or> c_date c \<noteq> []"
  unfolding extract_entries_from_table_def
  by (cases "lp_table page") (auto dest: table_loop_upd_fields)

section \<open>Claim C3: when the anchor fallback runs\<close>

text \<open>
  C3. In sebi_update_and_download_missing.py the fallback runs exactly when the table
  extractor returns nothing. In sebi_make_two_csvs.py the fallback is the \<open>else\<close> branch
  of \<open>if table\<close>: on the page whose table has only a header row the table tier yields
  nothing, the fallback would yield the link of the content area, and
  \<open>extract_entries_from_listing\<close> returns the empty list, where the other script returns
  the fallback's candidate.
\<close>

theorem fallback_skipped_when_table_yields_nothing:
  "extract_entries_from_listing L0 page_header_table = [] \<and>
   fallback_extract_entries L0 page_header_table =
     [\<lparr>c_date = ''Jan 01, 2025'', c_title = ''Circular X'', c_link = ''/x''\<rparr>] \<and>
   listing_entries_upd L0 page_header_table =
     [\<lparr>c_date = ''Jan 01, 2025'', c_title = ''Circular X'', c_link = ''/x''\<rparr>]"
  by code_simp

section \<open>Claim C4: rows without a title\<close>

lemma table_loop_csv_filter:
  "table_loop_csv L rs =
     filter (\<lambda>c. c_title c \<noteq> []) (map (row_candidate L) (filter (\<lambda>r. tds r \<noteq> []) rs))"
  by (induction rs) simp_all

lemma table_loop_upd_filter:
  "table_loop_upd L rs =
     filter (\<lambda>c. c_title c \<noteq> [] \<or> c_date c \<noteq> [])
       (map (row_candidate L) (filter (\<lambda>r. tds r \<noteq> []) rs))"
  by (induction rs) simp_all

text \<open>
  C4 (as amended). Both table tiers go through the rows that have at least one cell, in
  order, and make the candidate \<open>row_candidate\<close> of each. The table tier of
  sebi_make_two_csvs.py keeps exactly the candidates with a non-empty title: a row
  without a title is dropped, and no candidate of \<open>extract_entries_from_listing\<close> has an
  empty title. The table tier of sebi_update_and_download_missing.py keeps exactly the
  candidates with a non-empty title or a non-empty date: a row without a title is
  dropped when it has no date either, a row with a date and no title is emitted with
  its empty title, and every candidate emitted has a title or a date.
\<close>

theorem structured_tier_titles:
  "(lp_table page = Some t \<longrightarrow>
      extract_entries_from_listing L page =
        filter (\<lambda>c. c_title c \<noteq> [])
          (map (row_candidate L) (filter (\<lambda>r. tds r \<noteq> []) (table_rows_of t))) \<and>
      extract_entries_from_table L page =
        filter (\<lambda>c. c_title c \<noteq> [] \<or> c_date c \<noteq> [])
          (map (row_candidate L) (filter (\<lambda>r. tds r \<noteq> []) (table_rows_of t)))) \<and>
   (lp_table page = Some t \<and> r \<in> set (table_rows_of t) \<and> tds r \<noteq> [] \<and>
    c_title (row_candidate L r) = [] \<and> c_date (row_candidate L r) \<noteq> [] \<longrightarrow>
      row_candidate L r \<in> set (extract_entries_from_table L page) \<and>
      row_candidate L r \<notin> set (extract_entries_from_listing L page)) \<and>
   (\<forall>c\<in>set (extract_entries_from_listing L page). c_title c \<noteq> []) \<and>
   (\<forall>c\<in>set (extract_entries_from_table L page). c_title c \<noteq> [] \<or> c_date c \<noteq> [])"
proof -
  have a: "lp_table page = Some t \<longrightarrow>
      extract_entries_from_listing L page =
        filter (\<lambda>c. c_title c \<noteq> [])
          (map (row_candidate L) (filter (\<lambda>r. tds r \<noteq> []) (table_rows_of t))) \<and>
      extract_entries_from_table L page =
        filter (\<lambda>c. c_title c \<noteq> [] \<or> c_date c \<noteq> [])
          (map (row_candidate L) (filter (\<lambda>r. tds r \<noteq> []) (table_rows_of t)))"
    by (simp add: extract_entries_from_listing_def extract_entries_from_table_def
        table_loop_csv_filter table_loop_upd_filter)
  have b: "lp_table page = Some t \<and> r \<in> set (table_rows_of t) \<and> tds r \<noteq> [] \<and>
    c_title (row_candidate L r) = [] \<and> c_date (row_candidate L r) \<noteq> [] \<longrightarrow>
      row_candidate L r \<in> set (extract_entries_from_table L page) \<and>
      row_candidate L r \<notin> set (extract_entries_from_listing L page)"
  proof
    assume h: "lp_table page = Some t \<and> r \<in> set (table_rows_of t) \<and> tds r \<noteq> [] \<and>
      c_title (row_candidate L r) = [] \<and> c_date (row_candidate L r) \<noteq> []"
    with a have 1: "extract_entries_from_listing L page =
        filter (\<lambda>c. c_title c \<noteq> [])
          (map (row_candidate L) (filter (\<lambda>r. tds r \<noteq> []) (table_rows_of t)))"
      and 2: "extract_entries_from_table L page =
        filter (\<lambda>c. c_title c \<noteq> [] \<or> c_date c \<noteq> [])
          (map (row_candidate L) (filter (\<lambda>r. tds r \<noteq> []) (table_rows_of t)))"
      by blast+
    from h have "row_candidate L r \<in> set (extract_entries_from_table L page)"
      unfolding 2 by simp
    moreover from h have "row_candidate L r \<notin> set (extract_entries_from_listing L page)"
      unfolding 1 by simp
    ultimately show "row_candidate L r \<in> set (extract_entries_from_table L page) \<and>
      row_candidate L r \<notin> set (extract_entries_from_listing L page)" ..
  qed
  from a b extract_entries_from_listing_titles extract_entries_from_table_fields
  show ?thesis by blast
qed

text \<open>
  The theorem on the page with three rows: the row with a date alone is emitted by
  sebi_update_and_download_missing.py and dropped by sebi_make_two_csvs.py, and the
  blank row is dropped by both.
\<close>

theorem structured_tier_titles_witness:
  "\<lparr>tds = [''Jan 01, 2025''], row_link = None\<rparr> \<in> set (table_rows_of (the (lp_table page_three_rows))) \<and>
   row_candidate L0 \<lparr>tds = [''Jan 01, 2025''], row_link = None\<rparr> =
     \<lparr>c_date = ''Jan 01, 2025'', c_title = [], c_link = []\<rparr> \<and>
   \<lparr>c_date = ''Jan 01, 2025'', c_title = [], c_link = []\<rparr>
     \<in> set (extract_entries_from_table L0 page_three_rows) \<and>
   \<lparr>c_date = ''Jan 01, 2025'', c_title = [], c_link = []\<rparr>
     \<notin> set (extract_entries_from_listing L0 page_three_rows) \<and>
   extract_entries_from_listing L0 page_three_rows =
     [\<lparr>c_date = ''Jan 02, 2025'', c_title = ''Circular A'', c_link = ''/a''\<rparr>] \<and>
   length (extract_entries_from_table L0 page_three_rows) = 2 \<and>
   list_all (\<lambda>c. c_title c \<noteq> [] \<or> c_date c \<noteq> []) (extract_entries_from_table L0 page_three_rows)"
proof -
  define T where "T = the (lp_table page_three_rows)"
  define r where "r = \<lparr>tds = [''Jan 01, 2025''], row_link = None\<rparr>"
  have t: "lp_table page_three_rows = Some T"
    by (simp add: T_def page_three_rows_def)
  have m: "r \<in> set (table_rows_of T)" "tds r \<noteq> []"
    by (simp_all add: T_def r_def page_three_rows_def table_rows_of_def)
  have c: "row_candidate L0 r = \<lparr>c_date = ''Jan 01, 2025'', c_title = [], c_link = []\<rparr>"
    unfolding r_def by code_simp
  then have c': "c_title (row_candidate L0 r) = []" "c_date (row_candidate L0 r) \<noteq> []"
    by simp_all
  have e: "extract_entries_from_listing L0 page_three_rows =
     [\<lparr>c_date = ''Jan 02, 2025'', c_title = ''Circular A'', c_link = ''/a''\<rparr>]"
    by code_simp
  have n: "length (extract_entries_from_table L0 page_three_rows) = 2"
    by code_simp
  note th = structured_tier_titles [of page_three_rows T L0 r]
  from th t m c' have x: "row_candidate L0 r \<in> set (extract_entries_from_table L0 page_three_rows) \<and>
      row_candidate L0 r \<notin> set (extract_entries_from_listing L0 page_three_rows)"
    by blast
  from th have y: "list_all (\<lambda>c. c_title c \<noteq> [] \<or> c_date c \<noteq> [])
      (extract_entries_from_table L0 page_three_rows)"
    unfolding list_all_iff by blast
  from m(1) c x e n y show ?thesis
    unfolding T_def r_def by (simp only: simp_thms)
qed

text \<open>
  C4 as stated fails for sebi_update_and_download_missing.py: the row with a date and no
  title is emitted with an empty title.
\<close>

theorem empty_title_row_emitted:
  "extract_entries_from_table L0 page_three_rows =
     [\<lparr>c_date = ''Jan 02, 2025'', c_title = ''Circular A'', c_link = ''/a''\<rparr>,
      \<lparr>c_date = ''Jan 01, 2025'', c_title = [], c_link = []\<rparr>]"
  by code_simp

section \<open>Claim C5: the order of the hyperlink scan and the frame scan\<close>

lemma frame_selectors_nonempty:
  "frame_selectors L fr sels = Inr (Some u) \<Longrightarrow> u \<noteq> []"
  by (induction sels) (auto split: sum.splits option.splits if_splits)

lemma frame_scan_nonempty: "frame_scan L frs = Some u \<Longrightarrow> u \<noteq> []"
proof (induction frs)
  case Nil
  then show ?case by simp
next
  case (Cons fr frs)
  then show ?case
    by (auto split: if_splits sum.splits option.splits dest: frame_selectors_nonempty)
qed

lemma frame_scan_not_falsy: "frame_scan L frs = Some u \<Longrightarrow> \<not> falsy (Some u)"
  by (auto simp: falsy_def dest: frame_scan_nonempty)

lemma resolve_found_by_tiers:
  "\<not> falsy (find_pdf_url_on_page_upd L page) \<Longrightarrow>
   resolve_pdf_url L page = find_pdf_url_on_page_upd L page"
  by (simp add: resolve_pdf_url_def)

lemma resolve_found_by_link:
  assumes "falsy (find_pdf_url_on_page_upd L page)"
    and "anchor_scan (dp_query_selector_all page ''a'') = Some href"
    and "urljoin L (dp_url page) href \<noteq> []"
  shows "resolve_pdf_url L page = Some (urljoin L (dp_url page) href)"
  using assms by (simp add: resolve_pdf_url_def falsy_def)

lemma resolve_frames_last:
  assumes "falsy (find_pdf_url_on_page_upd L page)"
    and "anchor_scan (dp_query_selector_all page ''a'') = None \<or>
         (anchor_scan (dp_query_selector_all page ''a'') = Some href \<and>
          urljoin L (dp_url page) href = [])"
  shows "resolve_pdf_url L page = frame_scan L (dp_frames page)"
proof (cases "frame_scan L (dp_frames page)")
  case None
  with assms show ?thesis
    by (auto simp add: resolve_pdf_url_def falsy_def)
next
  case (Some u)
  then have "u \<noteq> []" by (rule frame_scan_nonempty)
  with Some assms show ?thesis
    by (auto simp add: resolve_pdf_url_def falsy_def)
qed

lemma contains_self: "contains sub sub"
  by (cases sub) (simp_all add: startswith_def)

lemma contains_drop: "contains sub (drop n s) \<Longrightarrow> contains sub s"
proof (induction s arbitrary: n)
  case Nil
  then show ?case by simp
next
  case (Cons c s)
  then show ?case by (cases n) auto
qed

lemma endswith_contains: "endswith s suf \<Longrightarrow> contains suf s"
proof -
  assume "endswith s suf"
  then have "drop (length s - length suf) s = suf" by (simp add: endswith_def)
  then have "contains suf (drop (length s - length suf) s)" by (simp add: contains_self)
  then show ?thesis by (rule contains_drop)
qed

lemma all_elements_tier_None:
  "all_elements_tier els = None \<Longrightarrow> el \<in> set els \<Longrightarrow>
   first_pdf_attr el [''src'', ''href'', ''data'', ''data-src''] = None"
proof (induction els)
  case Nil
  then show ?case by simp
next
  case (Cons e els)
  from Cons.prems(1) have 1: "first_pdf_attr e [''src'', ''href'', ''data'', ''data-src''] = None"
    and 2: "all_elements_tier els = None"
    by (simp_all del: first_pdf_attr.simps split: option.splits)
  from Cons.prems(2) have "el = e \<or> el \<in> set els" by simp
  then show ?case using 1 2 Cons.IH by blast
qed

lemma first_pdf_attr_href:
  assumes "first_pdf_attr el [''src'', ''href'', ''data'', ''data-src''] = None"
    and "get_attribute el ''href'' = Some v" and "v \<noteq> []"
  shows "\<not> contains ''.pdf'' (lower v)"
proof
  assume c: "contains ''.pdf'' (lower v)"
  have "first_pdf_attr el (''href'' # rest) = Some v" for rest
    using assms(2,3) c by simp
  then have "first_pdf_attr el (a # ''href'' # rest) \<noteq> None" for a rest
    by (cases "get_attribute el a") (simp_all del: contains.simps)
  with assms(1) show False by blast
qed

lemma anchor_scan_Some:
  "anchor_scan as = Some href \<Longrightarrow>
   \<exists>a\<in>set as. get_attribute a ''href'' = Some href \<and> href \<noteq> [] \<and> contains ''.pdf'' (lower href)"
proof (induction as)
  case Nil
  then show ?case by simp
next
  case (Cons a as)
  define h where "h = or_empty (get_attribute a ''href'')"
  show ?case
  proof (cases "h \<noteq> [] \<and> (endswith (lower h) ''.pdf'' \<or>
      (contains ''.pdf'' (lower h) \<and>
        (contains ''view'' (lower (el_text a)) \<or> contains ''pdf'' (lower (el_text a)))))")
    case True
    then have "anchor_scan (a # as) = Some h"
      unfolding anchor_scan.simps Let_def h_def by (rule if_P)
    with Cons.prems have e: "href = h" by simp
    from True have n: "h \<noteq> []" and c: "contains ''.pdf'' (lower h)"
      using endswith_contains by blast+
    from n have "get_attribute a ''href'' = Some h"
      unfolding h_def by (cases "get_attribute a ''href''") (simp_all add: or_empty_def)
    with e n c show ?thesis by simp
  next
    case False
    then have "anchor_scan (a # as) = anchor_scan as"
      unfolding anchor_scan.simps Let_def h_def by (rule if_not_P)
    with Cons show ?thesis by simp
  qed
qed

text \<open>
  On a page that answers the hyperlink query with elements it also gave to the query for
  all elements, the hyperlink scan finds nothing once the scan of all elements has
  found nothing: the order of the hyperlink scan and the frame scan shows only on a page
  that changed between the queries.
\<close>

lemma anchor_scan_idle_on_unchanged_page:
  assumes "set (dp_query_selector_all page ''a'') \<subseteq> set (dp_query_selector_all page ''*'')"
    and "all_elements_tier (dp_query_selector_all page ''*'') = None"
  shows "anchor_scan (dp_query_selector_all page ''a'') = None"
proof (cases "anchor_scan (dp_query_selector_all page ''a'')")
  case None
  then show ?thesis .
next
  case (Some href)
  then obtain a where a: "a \<in> set (dp_query_selector_all page ''a'')"
      "get_attribute a ''href'' = Some href" "href \<noteq> []" "contains ''.pdf'' (lower href)"
    using anchor_scan_Some by blast
  with assms(1) have "a \<in> set (dp_query_selector_all page ''*'')" by blast
  with assms(2) have "first_pdf_attr a [''src'', ''href'', ''data'', ''data-src''] = None"
    by (rule all_elements_tier_None)
  with a show ?thesis using first_pdf_attr_href by blast
qed

lemma find_pdf_url_on_page_upd_None:
  "find_pdf_url_on_page_upd L page = None \<Longrightarrow>
   all_elements_tier (dp_query_selector_all page ''*'') = None"
  by (simp add: find_pdf_url_on_page_upd_def split: option.splits)

lemma frame_selectors_same:
  assumes "fr_url f = fr_url g"
    and "list_all (\<lambda>sel. fr_query_selector f sel = fr_query_selector g sel) sels"
  shows "frame_selectors L f sels = frame_selectors L g sels"
  using assms(2)
proof (induction sels)
  case Nil
  then show ?case by simp
next
  case (Cons sel sels)
  then have q: "fr_query_selector f sel = fr_query_selector g sel"
    and r: "frame_selectors L f sels = frame_selectors L g sels"
    by simp_all
  show ?case
    unfolding frame_selectors.simps q r assms(1) ..
qed

lemma frame_scan_same:
  "list_all2 same_for_frame_scan frs1 frs2 \<Longrightarrow> frame_scan L frs1 = frame_scan L frs2"
proof (induction frs1 frs2 rule: list_all2_induct)
  case Nil
  then show ?case by simp
next
  case (Cons f frs1 g frs2)
  from Cons.hyps(1) have u: "fr_url f = fr_url g"
    and s: "list_all (\<lambda>sel. fr_query_selector f sel = fr_query_selector g sel) FRAME_SELECTORS"
    by (simp_all add: same_for_frame_scan_def)
  from u s have q: "frame_selectors L f FRAME_SELECTORS = frame_selectors L g FRAME_SELECTORS"
    by (rule frame_selectors_same)
  show ?case
    unfolding frame_scan.simps q u Cons.IH ..
qed

lemma scans_run_cases:
  "scans_run L page =
     (if \<not> falsy (find_pdf_url_on_page_upd L page) then [FindOnPage]
      else if anchor_scan (dp_query_selector_all page ''a'') = None \<or>
              (\<exists>h. anchor_scan (dp_query_selector_all page ''a'') = Some h \<and>
                   urljoin L (dp_url page) h = [])
        then [FindOnPage, AnchorScan, FrameScan]
        else [FindOnPage, AnchorScan])"
  by (cases "anchor_scan (dp_query_selector_all page ''a'')")
     (auto simp add: scans_run_def Let_def falsy_def)

text \<open>
  C5 (as amended). In sebi_update_and_download_missing.py, when \<open>find_pdf_url_on_page\<close>
  finds nothing on a detail page, the hyperlink heuristic runs next and the frame scan
  runs after it, only when the hyperlink heuristic has given nothing (no hyperlink
  accepted, or one whose reference joins to the empty string). A hyperlink the heuristic
  accepts is the result, whatever the frames hold; when it accepts none the result is
  that of the frame scan. When the hyperlinks the page gives to the hyperlink query were
  also among the elements it gave to \<open>find_pdf_url_on_page\<close>, the heuristic accepts none
  and the result is that of the frame scan. The frame scan accepts a frame whose own URL
  ends in \<open>.pdf\<close>; otherwise it asks the frame for the four ends-with selectors only: two
  lists of frames with the same URLs and the same answers to these four selectors give
  the same result, whatever their documents answer to any other query.
\<close>

theorem resolution_order:
  "(falsy (find_pdf_url_on_page_upd L page) \<and>
    anchor_scan (dp_query_selector_all page ''a'') = Some href \<and>
    urljoin L (dp_url page) href \<noteq> []
      \<longrightarrow> resolve_pdf_url L (page\<lparr>dp_frames := frs\<rparr>) = Some (urljoin L (dp_url page) href)) \<and>
   (falsy (find_pdf_url_on_page_upd L page) \<and>
    anchor_scan (dp_query_selector_all page ''a'') = None
      \<longrightarrow> resolve_pdf_url L page = frame_scan L (dp_frames page)) \<and>
   (find_pdf_url_on_page_upd L page = None \<and>
    set (dp_query_selector_all page ''a'') \<subseteq> set (dp_query_selector_all page ''*'')
      \<longrightarrow> anchor_scan (dp_query_selector_all page ''a'') = None \<and>
          resolve_pdf_url L page = frame_scan L (dp_frames page)) \<and>
   (falsy (find_pdf_url_on_page_upd L page)
      \<longrightarrow> take 2 (scans_run L page) = [FindOnPage, AnchorScan]) \<and>
   (FrameScan \<in> set (scans_run L page) \<longleftrightarrow>
      falsy (find_pdf_url_on_page_upd L page) \<and>
      (anchor_scan (dp_query_selector_all page ''a'') = None \<or>
       (\<exists>h. anchor_scan (dp_query_selector_all page ''a'') = Some h \<and>
            urljoin L (dp_url page) h = []))) \<and>
   (fr_url fr \<noteq> [] \<and> endswith (lower (fr_url fr)) ''.pdf''
      \<longrightarrow> frame_scan L (fr # frs) = Some (fr_url fr)) \<and>
   (list_all2 same_for_frame_scan frs1 frs2 \<longrightarrow> frame_scan L frs1 = frame_scan L frs2)"
proof -
  have 1: "falsy (find_pdf_url_on_page_upd L page) \<and>
    anchor_scan (dp_query_selector_all page ''a'') = Some href \<and>
    urljoin L (dp_url page) href \<noteq> []
      \<longrightarrow> resolve_pdf_url L (page\<lparr>dp_frames := frs\<rparr>) = Some (urljoin L (dp_url page) href)"
  proof
    assume a: "falsy (find_pdf_url_on_page_upd L page) \<and>
      anchor_scan (dp_query_selector_all page ''a'') = Some href \<and>
      urljoin L (dp_url page) href \<noteq> []"
    have "find_pdf_url_on_page_upd L (page\<lparr>dp_frames := frs\<rparr>) = find_pdf_url_on_page_upd L page"
      by (simp add: find_pdf_url_on_page_upd_def split: option.splits)
    with a show "resolve_pdf_url L (page\<lparr>dp_frames := frs\<rparr>) = Some (urljoin L (dp_url page) href)"
      using resolve_found_by_link [of L "page\<lparr>dp_frames := frs\<rparr>" href] by simp
  qed
  have 2: "falsy (find_pdf_url_on_page_upd L page) \<and>
    anchor_scan (dp_query_selector_all page ''a'') = None
      \<longrightarrow> resolve_pdf_url L page = frame_scan L (dp_frames page)"
    using resolve_frames_last [of L page] by blast
  have 3: "find_pdf_url_on_page_upd L page = None \<and>
    set (dp_query_selector_all page ''a'') \<subseteq> set (dp_query_selector_all page ''*'')
      \<longrightarrow> anchor_scan (dp_query_selector_all page ''a'') = None \<and>
          resolve_pdf_url L page = frame_scan L (dp_frames page)"
  proof
    assume h: "find_pdf_url_on_page_upd L page = None \<and>
      set (dp_query_selector_all page ''a'') \<subseteq> set (dp_query_selector_all page ''*'')"
    then have "all_elements_tier (dp_query_selector_all page ''*'') = None"
      using find_pdf_url_on_page_upd_None by blast
    with h have n: "anchor_scan (dp_query_selector_all page ''a'') = None"
      using anchor_scan_idle_on_unchanged_page by blast
    from h have "falsy (find_pdf_url_on_page_upd L page)" by (simp add: falsy_def)
    with n 2 show "anchor_scan (dp_query_selector_all page ''a'') = None \<and>
        resolve_pdf_url L page = frame_scan L (dp_frames page)"
      by blast
  qed
  have 4: "falsy (find_pdf_url_on_page_upd L page)
      \<longrightarrow> take 2 (scans_run L page) = [FindOnPage, AnchorScan]"
    unfolding scans_run_cases by simp
  have 5: "FrameScan \<in> set (scans_run L page) \<longleftrightarrow>
      falsy (find_pdf_url_on_page_upd L page) \<and>
      (anchor_scan (dp_query_selector_all page ''a'') = None \<or>
       (\<exists>h. anchor_scan (dp_query_selector_all page ''a'') = Some h \<and>
            urljoin L (dp_url page) h = []))"
    unfolding scans_run_cases by simp
  have 6: "fr_url fr \<noteq> [] \<and> endswith (lower (fr_url fr)) ''.pdf''
      \<longrightarrow> frame_scan L (fr # frs) = Some (fr_url fr)"
    by simp
  have 7: "list_all2 same_for_frame_scan frs1 frs2 \<longrightarrow> frame_scan L frs1 = frame_scan L frs2"
    using frame_scan_same by blast
  from 1 2 3 4 5 6 7 show ?thesis by (intro conjI)
qed

text \<open>
  The theorem on the page with a link and a frame (the link gives the result, also with
  no frame at all), on the unchanging page with a frame whose address is a document
  (the hyperlink heuristic runs and accepts nothing, the frame gives the result), and on
  the two frames that differ only in the answer to \<open>a[href*='.pdf']\<close> (the frame scan
  gives the same result, nothing, for both).
\<close>

theorem resolution_order_witness:
  "falsy (find_pdf_url_on_page_upd L0 page_link_and_frame) \<and>
   anchor_scan (dp_query_selector_all page_link_and_frame ''a'') = Some ''/files/c1.pdf'' \<and>
   resolve_pdf_url L0 (page_link_and_frame\<lparr>dp_frames := []\<rparr>) = Some ''/files/c1.pdf'' \<and>
   take 2 (scans_run L0 page_link_and_frame) = [FindOnPage, AnchorScan] \<and>
   FrameScan \<notin> set (scans_run L0 page_link_and_frame) \<and>
   find_pdf_url_on_page_upd L0 page_static_frame = None \<and>
   set (dp_query_selector_all page_static_frame ''a'')
     \<subseteq> set (dp_query_selector_all page_static_frame ''*'') \<and>
   anchor_scan (dp_query_selector_all page_static_frame ''a'') = None \<and>
   FrameScan \<in> set (scans_run L0 page_static_frame) \<and>
   resolve_pdf_url L0 page_static_frame = Some ''https://www.sebi.gov.in/frame/c4.pdf'' \<and>
   list_all2 same_for_frame_scan [frame_with_query_link] [frame_without_link] \<and>
   frame_scan L0 [frame_with_query_link] = None"
proof -
  have f1: "falsy (find_pdf_url_on_page_upd L0 page_link_and_frame)" by code_simp
  have a1: "anchor_scan (dp_query_selector_all page_link_and_frame ''a'') = Some ''/files/c1.pdf''"
    by code_simp
  have u1: "urljoin L0 (dp_url page_link_and_frame) ''/files/c1.pdf'' = ''/files/c1.pdf''"
    by (simp add: L0_def)
  have f2: "find_pdf_url_on_page_upd L0 page_static_frame = None" by code_simp
  have s2: "set (dp_query_selector_all page_static_frame ''a'')
      \<subseteq> set (dp_query_selector_all page_static_frame ''*'')"
    by (simp add: page_static_frame_def)
  have d2: "dp_frames page_static_frame =
      \<lparr>fr_url = ''https://www.sebi.gov.in/legal/circulars/c4.html'',
        fr_query_selector = (\<lambda>sel. Inr None)\<rparr> #
      [\<lparr>fr_url = ''https://www.sebi.gov.in/frame/c4.pdf'',
        fr_query_selector = (\<lambda>sel. Inr None)\<rparr>]"
    by (simp add: page_static_frame_def)
  have m2: "frame_selectors L0
      \<lparr>fr_url = ''https://www.sebi.gov.in/legal/circulars/c4.html'',
        fr_query_selector = (\<lambda>sel. Inr None)\<rparr> FRAME_SELECTORS = Inr None"
    by (simp add: FRAME_SELECTORS_def)
  have e2: "\<not> endswith (lower ''https://www.sebi.gov.in/legal/circulars/c4.html'') ''.pdf''"
      "endswith (lower ''https://www.sebi.gov.in/frame/c4.pdf'') ''.pdf''"
    by code_simp+
  have same: "list_all2 same_for_frame_scan [frame_with_query_link] [frame_without_link]"
    by (simp add: same_for_frame_scan_def frame_with_query_link_def frame_without_link_def
        FRAME_SELECTORS_def)
  have n3: "frame_scan L0 [frame_without_link] = None"
    by code_simp
  note a = resolution_order [of L0 page_link_and_frame "''/files/c1.pdf''" "[]" _ "[]" "[]"]
  note b = resolution_order [of L0 page_static_frame _ _
      "\<lparr>fr_url = ''https://www.sebi.gov.in/frame/c4.pdf'', fr_query_selector = (\<lambda>sel. Inr None)\<rparr>"
      "[frame_with_query_link]" "[frame_without_link]"]
  from a f1 a1 u1 have r1:
    "resolve_pdf_url L0 (page_link_and_frame\<lparr>dp_frames := []\<rparr>) = Some ''/files/c1.pdf''"
    "take 2 (scans_run L0 page_link_and_frame) = [FindOnPage, AnchorScan]"
    "FrameScan \<notin> set (scans_run L0 page_link_and_frame)"
    by simp_all
  from b f2 s2 have r2: "anchor_scan (dp_query_selector_all page_static_frame ''a'') = None"
    "resolve_pdf_url L0 page_static_frame = frame_scan L0 (dp_frames page_static_frame)"
    by blast+
  from f2 have "falsy (find_pdf_url_on_page_upd L0 page_static_frame)" by (simp add: falsy_def)
  with b r2(1) have r3: "FrameScan \<in> set (scans_run L0 page_static_frame)" by blast
  from b e2(2) have "frame_scan L0
      [\<lparr>fr_url = ''https://www.sebi.gov.in/frame/c4.pdf'', fr_query_selector = (\<lambda>sel. Inr None)\<rparr>] =
      Some ''https://www.sebi.gov.in/frame/c4.pdf''"
    by simp
  with m2 e2(1) have r4: "frame_scan L0 (dp_frames page_static_frame) =
      Some ''https://www.sebi.gov.in/frame/c4.pdf''"
    unfolding d2 by (simp del: frame_scan.simps(2) add: frame_scan.simps(2) [where frs = "[x]" for x])
  from b same n3 have r5: "frame_scan L0 [frame_with_query_link] = None" by simp
  from f1 a1 r1 f2 s2 r2 r3 r4 same r5 show ?thesis by (simp only: simp_thms)
qed

text \<open>
  C5 as stated fails. On the unchanging page with a frame whose address is a document,
  the hyperlink heuristic runs before the frame scan, although the frame scan yields
  the document. On the unchanging page whose frame holds a hyperlink that only the
  selector \<open>a[href*='.pdf']\<close> finds, the selector tier applied to the frame's document
  finds it, and the frame scan, which does not apply that tier, finds nothing: no URL is
  resolved. On the page whose hyperlink appeared after \<open>find_pdf_url_on_page\<close> had read
  the elements, the frame scan alone would give the frame's document, and the result
  is the hyperlink's.
\<close>

theorem frame_scan_after_links_and_without_tiers:
  "dp_query_selector_all page_static_frame ''a'' = [] \<and>
   find_pdf_url_on_page_upd L0 page_static_frame = None \<and>
   frame_scan L0 (dp_frames page_static_frame) = Some ''https://www.sebi.gov.in/frame/c4.pdf'' \<and>
   scans_run L0 page_static_frame = [FindOnPage, AnchorScan, FrameScan] \<and>
   dp_query_selector_all page_frame_with_query_link ''a'' = [] \<and>
   find_pdf_url_on_page_upd L0 page_frame_with_query_link = None \<and>
   selector_tier (frame_query frame_with_query_link) PDF_SELECTORS =
     Some ''/files/c3.pdf?download=1'' \<and>
   frame_scan L0 (dp_frames page_frame_with_query_link) = None \<and>
   resolve_pdf_url L0 page_frame_with_query_link = None \<and>
   find_pdf_url_on_page_upd L0 page_link_and_frame = None \<and>
   frame_scan L0 (dp_frames page_link_and_frame) = Some ''https://www.sebi.gov.in/frame/c1.pdf'' \<and>
   resolve_pdf_url L0 page_link_and_frame = Some ''/files/c1.pdf''"
  by code_simp

section \<open>The catalog file: the writer and the reader on the example catalogs\<close>

lemma catalog_after_run_eq:
  assumes "extract_entries_from_listing L page = entries" and "entries \<noteq> []"
    and "load_master_csv file = Inr master_rows"
  shows "catalog_after_run L W page file =
           Some (write_csv (cr_new_master (loop_of_main_csv L W entries master_rows file)))"
  using assms by (simp add: catalog_after_run_def main_csv_def Let_def)

lemma writerow_HEADERS: "writerow HEADERS = HEADER_LINE @ [CR, LF]"
  by code_simp

lemma safe_row_backslash:
  "safe_row row_backslash = row_backslash"
  "safe_row (row_backslash\<lparr>en_title := title_backslash2\<rparr>) =
     row_backslash\<lparr>en_title := title_backslash2\<rparr>"
  by code_simp+

lemma writerow_backslash:
  "writerow (entry_fields row_backslash) =
     ''h29|Jan 05, 2025|Circular A'' @ [CHR 0x5C] @ [CHR 0x5C] @ ''B|/ab||Circular A_B.pdf|no|2025-01-03T00:00:00Z|'' @ [CR, LF]"
  by code_simp

lemma writerow_backslash2:
  "writerow (entry_fields (row_backslash\<lparr>en_title := title_backslash2\<rparr>)) =
     ''h29|Jan 05, 2025|Circular A'' @ [CHR 0x5C] @ [CHR 0x5C] @ [CHR 0x5C] @ [CHR 0x5C] @ ''B|/ab||Circular A_B.pdf|no|2025-01-03T00:00:00Z|'' @ [CR, LF]"
  by code_simp

lemma write_csv_run1: "write_csv [row_backslash] = catalog_run1"
proof -
  have t: "csv_text [row_backslash] =
      HEADER_LINE @ [CR, LF] @
      ''h29|Jan 05, 2025|Circular A'' @ [CHR 0x5C] @ [CHR 0x5C] @ ''B|/ab||Circular A_B.pdf|no|2025-01-03T00:00:00Z|'' @ [CR, LF]"
    unfolding csv_text_def
    by (simp only: safe_row_backslash writerow_backslash writerow_HEADERS list.map concat.simps
        append_Nil2 append_assoc)
  show ?thesis unfolding write_csv_def t by code_simp
qed

lemma write_csv_run2:
  "write_csv [row_backslash\<lparr>en_title := title_backslash2\<rparr>, row_backslash] = catalog_run2"
proof -
  have t: "csv_text [row_backslash\<lparr>en_title := title_backslash2\<rparr>, row_backslash] =
      HEADER_LINE @ [CR, LF] @
      ''h29|Jan 05, 2025|Circular A'' @ [CHR 0x5C] @ [CHR 0x5C] @ [CHR 0x5C] @ [CHR 0x5C] @ ''B|/ab||Circular A_B.pdf|no|2025-01-03T00:00:00Z|'' @ [CR, LF] @
      ''h29|Jan 05, 2025|Circular A'' @ [CHR 0x5C] @ [CHR 0x5C] @ ''B|/ab||Circular A_B.pdf|no|2025-01-03T00:00:00Z|'' @ [CR, LF]"
    unfolding csv_text_def
    by (simp only: safe_row_backslash writerow_backslash writerow_backslash2 writerow_HEADERS
        list.map concat.simps append_Nil2 append_assoc)
  show ?thesis unfolding write_csv_def t by code_simp
qed

lemma load_run1:
  "load_master_csv (Some catalog_run1) = Inr [row_backslash\<lparr>en_title := title_backslash2\<rparr>]"
  by code_simp

lemma load_run2:
  "load_master_csv (Some catalog_run2) =
     Inr [row_backslash\<lparr>en_title := title_backslash4\<rparr>,
          row_backslash\<lparr>en_title := title_backslash2\<rparr>]"
  by code_simp

lemma extract_backslash: "extract_entries_from_listing L0 page_backslash = [cand_backslash]"
  by code_simp

lemma loop_backslash_run1:
  "cr_new_master (loop_of_main_csv L0 W0 [cand_backslash] [] file) = [row_backslash]"
  by code_simp

lemma loop_backslash_run2:
  "cr_new_master (loop_of_main_csv L0 W0 [cand_backslash]
      [row_backslash\<lparr>en_title := title_backslash2\<rparr>] file) =
     [row_backslash\<lparr>en_title := title_backslash2\<rparr>, row_backslash]"
  by code_simp

lemma after_run1: "catalog_after_run L0 W0 page_backslash None = Some catalog_run1"
proof -
  have "load_master_csv None = Inr []" by (simp add: load_master_csv_def)
  from catalog_after_run_eq [OF extract_backslash _ this, of W0]
  show ?thesis by (simp add: loop_backslash_run1 write_csv_run1)
qed

lemma after_run2: "catalog_after_run L0 W0 page_backslash (Some catalog_run1) = Some catalog_run2"
  using catalog_after_run_eq [OF extract_backslash _ load_run1, of W0]
  by (simp add: loop_backslash_run2 write_csv_run2)

section \<open>Claim C2: a second run on an unchanged listing\<close>

text \<open>
  C2. The listing has one candidate, titled \<open>Circular A\B\<close>, and there is no catalog. The
  first run writes the title with the backslash doubled (the writer's escape character),
  and \<open>load_master_csv\<close>, which sets no escape character, reads two backslashes back. The
  second run on the same listing does not find the candidate's key among the loaded
  keys and adds a second row; it also writes the loaded title with four backslashes.
\<close>

theorem second_run_adds_row_for_backslash_title:
  "map c_title (extract_entries_from_listing L0 page_backslash) = [title_backslash] \<and>
   catalog_titles (catalog_after_run L0 W0 page_backslash None) = [title_backslash2] \<and>
   title_key title_backslash2 \<noteq> title_key title_backslash \<and>
   catalog_titles (catalog_after_run L0 W0 page_backslash
       (catalog_after_run L0 W0 page_backslash None)) = [title_backslash4, title_backslash2]"
proof -
  have 1: "map c_title (extract_entries_from_listing L0 page_backslash) = [title_backslash]"
    by (simp add: extract_backslash cand_backslash_def)
  have 2: "catalog_titles (Some catalog_run1) = [title_backslash2]"
    by (simp add: catalog_titles_def load_run1)
  have 3: "title_key title_backslash2 \<noteq> title_key title_backslash"
    by code_simp
  have 4: "catalog_titles (Some catalog_run2) = [title_backslash4, title_backslash2]"
    by (simp add: catalog_titles_def load_run2)
  from 1 2 3 4 show ?thesis by (simp add: after_run1 after_run2)
qed

section \<open>The rewrite of the catalog on the example catalogs\<close>

lemma loop_of_main_csv_master:
  "cr_new_master (loop_of_main_csv L W entries master_rows file) =
     master_rows @ cr_new_entries (loop_of_main_csv L W entries master_rows file)"
proof -
  have step: "cr_new_master st = m @ cr_new_entries st \<Longrightarrow>
      cr_new_master (process_candidate_csv L W st i e) =
        m @ cr_new_entries (process_candidate_csv L W st i e)" for st m i e
    by (simp add: process_candidate_csv_def)
  have loop: "cr_new_master st = m @ cr_new_entries st \<Longrightarrow>
      cr_new_master (candidates_loop_csv L W i es st) =
        m @ cr_new_entries (candidates_loop_csv L W i es st)" for st m i es
  proof (induction es arbitrary: i st)
    case Nil
    then show ?case by simp
  next
    case (Cons e es)
    from Cons.prems have "cr_new_master (process_candidate_csv L W st i e) =
        m @ cr_new_entries (process_candidate_csv L W st i e)"
      by (rule step)
    then show ?case using Cons.IH by simp
  qed
  show ?thesis unfolding loop_of_main_csv_def by (rule loop) simp
qed

lemma load_blank:
  "load_master_csv (Some catalog_blank_filename) = Inr [row_blank_filename]"
  by code_simp

lemma extract_three_rows:
  "extract_entries_from_listing L0 page_three_rows =
     [\<lparr>c_date = ''Jan 02, 2025'', c_title = ''Circular A'', c_link = ''/a''\<rparr>]"
  by code_simp

lemma loop_blank:
  "cr_new_master (loop_of_main_csv L0 W0
      [\<lparr>c_date = ''Jan 02, 2025'', c_title = ''Circular A'', c_link = ''/a''\<rparr>]
      [row_blank_filename] file) = [row_blank_filename]"
  by code_simp

lemma safe_row_blank:
  "safe_row row_blank_filename = row_blank_filename\<lparr>en_pdf_filename := ''document.pdf''\<rparr>"
  by code_simp

lemma writerow_filled:
  "writerow (entry_fields (row_blank_filename\<lparr>en_pdf_filename := ''document.pdf''\<rparr>)) =
     ''x1|Jan 02, 2025|Circular A|/a||document.pdf|no|2025-01-02T00:00:00Z|'' @ [CR, LF]"
  by code_simp

lemma write_csv_blank: "write_csv [row_blank_filename] = catalog_filled_filename"
proof -
  have t: "csv_text [row_blank_filename] =
      HEADER_LINE @ [CR, LF] @
      ''x1|Jan 02, 2025|Circular A|/a||document.pdf|no|2025-01-02T00:00:00Z|'' @ [CR, LF]"
    unfolding csv_text_def
    by (simp only: safe_row_blank writerow_filled writerow_HEADERS list.map concat.simps
        append_Nil2 append_assoc)
  show ?thesis unfolding write_csv_def t by code_simp
qed







text \<open>
  The catalog of the first run on the page with the backslash, in a run that adds
  nothing.
\<close>

lemma extract_backslash2: "extract_entries_from_listing L0 page_backslash2 = [cand_backslash2]"
  by code_simp

lemma loop_backslash2:
  "cr_new_master (loop_of_main_csv L0 W0 [cand_backslash2]
      [row_backslash\<lparr>en_title := title_backslash2\<rparr>] file) =
     [row_backslash\<lparr>en_title := title_backslash2\<rparr>]"
  "cr_new_entries (loop_of_main_csv L0 W0 [cand_backslash2]
      [row_backslash\<lparr>en_title := title_backslash2\<rparr>] file) = []"
  by code_simp+

lemma write_csv_rewritten:
  "write_csv [row_backslash\<lparr>en_title := title_backslash2\<rparr>] = catalog_rewritten"
proof -
  have t: "csv_text [row_backslash\<lparr>en_title := title_backslash2\<rparr>] =
      HEADER_LINE @ [CR, LF] @
      ''h29|Jan 05, 2025|Circular A'' @ [CHR 0x5C] @ [CHR 0x5C] @ [CHR 0x5C] @ [CHR 0x5C] @ ''B|/ab||Circular A_B.pdf|no|2025-01-03T00:00:00Z|'' @ [CR, LF]"
    unfolding csv_text_def
    by (simp only: safe_row_backslash writerow_backslash2 writerow_HEADERS
        list.map concat.simps append_Nil2 append_assoc)
  show ?thesis unfolding write_csv_def t by code_simp
qed

lemma load_rewritten:
  "load_master_csv (Some catalog_rewritten) = Inr [row_backslash\<lparr>en_title := title_backslash4\<rparr>]"
  by code_simp

lemma after_rewrite:
  "catalog_after_run L0 W0 page_backslash2 (Some catalog_run1) = Some catalog_rewritten"
  using catalog_after_run_eq [OF extract_backslash2 _ load_run1, of W0]
  by (simp add: loop_backslash2 write_csv_rewritten)

section \<open>Claim C8: the rewrite and the rows loaded from the catalog\<close>

text \<open>
  What the rewrite keeps. The list handed to \<open>write_csv\<close> is the loaded rows, unchanged
  and in order, followed only by the entries the run added, and the text written has
  the lines of the loaded rows first. \<open>write_csv\<close> hands every field of a row to the
  writer as it is, except \<open>pdf_filename\<close>, which it replaces by \<open>safe_filename\<close> of the
  stored value; the value \<open>write_csv\<close> wrote for an entry the script made is left as it
  is (\<open>safe_filename_csv_stable\<close>).
\<close>

lemma rewrite_hands_loaded_rows_first:
  "cr_new_master (loop_of_main_csv L W entries master_rows file) =
     master_rows @ cr_new_entries (loop_of_main_csv L W entries master_rows file) \<and>
   csv_text (master_rows @ added) =
     csv_text master_rows @ concat (map (\<lambda>r. writerow (entry_fields (safe_row r))) added) \<and>
   (safe_row r)\<lparr>en_pdf_filename := en_pdf_filename r\<rparr> = r \<and>
   safe_row (safe_row (new_row_csv L W i e)) = safe_row (new_row_csv L W i e)"
proof -
  have "safe_row (safe_row (new_row_csv L W i e)) = safe_row (new_row_csv L W i e)"
    by (simp add: safe_row_def new_row_csv_def Let_def safe_filename_csv_stable)
  moreover have "csv_text (master_rows @ added) =
     csv_text master_rows @ concat (map (\<lambda>r. writerow (entry_fields (safe_row r))) added)"
    by (simp add: csv_text_def)
  moreover have "(safe_row r)\<lparr>en_pdf_filename := en_pdf_filename r\<rparr> = r"
    by (simp add: safe_row_def)
  ultimately show ?thesis using loop_of_main_csv_master by blast
qed

text \<open>
  C8. The rewrite changes a row loaded from a catalog the script itself wrote. The first
  run on the page with the title \<open>Circular A\B\<close> writes the catalog; \<open>load_master_csv\<close>
  reads its row with the title \<open>Circular A\\B\<close>. A later run, on a listing whose only
  candidate has that title, adds no entry and rewrites the catalog; the row read back
  from the rewritten file has the title with four backslashes: the writer doubles each
  backslash (its escape character) and the reader, which has no escape character,
  reads them all. The claim says the loaded row is written back unchanged.
\<close>

theorem rewrite_changes_loaded_title:
  "catalog_after_run L0 W0 page_backslash None = Some catalog_run1 \<and>
   load_master_csv (Some catalog_run1) = Inr [row_backslash\<lparr>en_title := title_backslash2\<rparr>] \<and>
   cr_new_entries (loop_of_main_csv L0 W0 (extract_entries_from_listing L0 page_backslash2)
     [row_backslash\<lparr>en_title := title_backslash2\<rparr>] (Some catalog_run1)) = [] \<and>
   load_master_csv (catalog_after_run L0 W0 page_backslash2 (Some catalog_run1)) =
     Inr [row_backslash\<lparr>en_title := title_backslash4\<rparr>] \<and>
   en_title (row_backslash\<lparr>en_title := title_backslash4\<rparr>) \<noteq>
     en_title (row_backslash\<lparr>en_title := title_backslash2\<rparr>)"
proof -
  have d: "title_backslash4 \<noteq> title_backslash2"
    by (simp add: title_backslash4_def title_backslash2_def)
  show ?thesis
    by (simp add: after_run1 load_run1 extract_backslash2 loop_backslash2 after_rewrite
        load_rewritten d)
qed

section \<open>Claim C9: when the catalog file is written\<close>

lemma candidates_loop_csv_file:
  "cr_catalog_file (candidates_loop_csv L W i es st) = cr_catalog_file st"
proof (induction es arbitrary: i st)
  case Nil
  then show ?case by simp
next
  case (Cons e es)
  have "cr_catalog_file (process_candidate_csv L W st i e) = cr_catalog_file st"
    by (simp add: process_candidate_csv_def)
  then show ?case using Cons.IH by simp
qed

text \<open>
  C9 (as amended). In sebi_make_two_csvs.py no step of the candidate loop changes the
  catalog file, so the file is as it was at every point of the loop; a run that finds no
  candidate leaves the file as it was; any other run whose catalog loads ends with the
  file holding exactly \<open>write_csv\<close> of the whole in-memory list. The rewrite itself goes
  from the old contents to the new ones through other contents (see the counterexample):
  it is whole, and last, but not atomic.
\<close>

theorem catalog_written_once_after_loop:
  "cr_catalog_file (candidates_loop_csv L W i es st) = cr_catalog_file st \<and>
   (extract_entries_from_listing L page = [] \<longrightarrow> catalog_after_run L W page file = file) \<and>
   (extract_entries_from_listing L page \<noteq> [] \<and> load_master_csv file = Inr master_rows \<longrightarrow>
      catalog_after_run L W page file =
        Some (write_csv (cr_new_master
          (loop_of_main_csv L W (extract_entries_from_listing L page) master_rows file)))) \<and>
   hd (write_csv_states old rows) = old \<and>
   last (write_csv_states old rows) = Some (write_csv rows)"
proof -
  have "extract_entries_from_listing L page = [] \<longrightarrow> catalog_after_run L W page file = file"
    by (simp add: catalog_after_run_def main_csv_def)
  moreover have "extract_entries_from_listing L page \<noteq> [] \<and> load_master_csv file = Inr master_rows \<longrightarrow>
      catalog_after_run L W page file =
        Some (write_csv (cr_new_master
          (loop_of_main_csv L W (extract_entries_from_listing L page) master_rows file)))"
    using catalog_after_run_eq [of L page "extract_entries_from_listing L page" "file" master_rows W]
    by blast
  moreover have "hd (write_csv_states old rows) = old \<and>
      last (write_csv_states old rows) = Some (write_csv rows)"
    by (simp add: write_csv_states_def)
  ultimately show ?thesis using candidates_loop_csv_file by blast
qed

text \<open>
  The theorem on the run with the blank file name (the file after the run is the whole
  new catalog) and on the page whose table has only a header (no candidate: the file is
  left as it was).
\<close>

theorem catalog_written_once_after_loop_witness:
  "extract_entries_from_listing L0 page_three_rows \<noteq> [] \<and>
   load_master_csv (Some catalog_blank_filename) = Inr [row_blank_filename] \<and>
   catalog_after_run L0 W0 page_three_rows (Some catalog_blank_filename) =
     Some (write_csv [row_blank_filename]) \<and>
   extract_entries_from_listing L0 page_header_table = [] \<and>
   catalog_after_run L0 W0 page_header_table (Some catalog_blank_filename) =
     Some catalog_blank_filename"
proof -
  have h: "extract_entries_from_listing L0 page_header_table = []" by code_simp
  from catalog_written_once_after_loop [of L0 W0 1 "[]" csv_run0 page_three_rows
      "Some catalog_blank_filename" "[row_blank_filename]" None "[]"]
    catalog_written_once_after_loop [of L0 W0 1 "[]" csv_run0 page_header_table
      "Some catalog_blank_filename" "[row_blank_filename]" None "[]"]
    h load_blank extract_three_rows loop_blank
  show ?thesis by simp
qed

text \<open>
  C9 as stated fails: while \<open>write_csv\<close> rewrites the catalog with the blank file name,
  the file is empty after \<open>open(path, "w")\<close>, which is neither the old catalog nor the
  new one; and it then holds the text with carriage returns, which is not the final
  one either.
\<close>

theorem rewrite_passes_through_other_contents:
  "write_csv_states (Some catalog_blank_filename) [row_blank_filename] ! 1 = Some [] \<and>
   Some [] \<noteq> Some catalog_blank_filename \<and>
   Some [] \<noteq> Some (write_csv [row_blank_filename]) \<and>
   write_csv_states (Some catalog_blank_filename) [row_blank_filename] ! 2 \<noteq>
     Some catalog_blank_filename \<and>
   write_csv_states (Some catalog_blank_filename) [row_blank_filename] ! 2 \<noteq>
     Some (write_csv [row_blank_filename])"
proof -
  have t: "csv_text [row_blank_filename] =
      HEADER_LINE @ [CR, LF] @
      ''x1|Jan 02, 2025|Circular A|/a||document.pdf|no|2025-01-02T00:00:00Z|'' @ [CR, LF]"
    unfolding csv_text_def
    by (simp only: safe_row_blank writerow_filled writerow_HEADERS list.map concat.simps
        append_Nil2 append_assoc)
  have a: "catalog_blank_filename \<noteq> []" "catalog_filled_filename \<noteq> []"
    by (simp_all add: catalog_blank_filename_def catalog_filled_filename_def HEADER_LINE_def)
  have b: "csv_text [row_blank_filename] \<noteq> catalog_blank_filename"
      "csv_text [row_blank_filename] \<noteq> catalog_filled_filename"
    unfolding t
    by (simp_all add: catalog_blank_filename_def catalog_filled_filename_def HEADER_LINE_def
        CR_def LF_def)
  show ?thesis
    using a b by (simp add: write_csv_states_def write_csv_blank)
qed

section \<open>The loops of the two scripts\<close>












text \<open>The call of line 290 has two arguments: the download is never reached.\<close>

lemma try_block_not_downloaded:
  "lv_downloaded (try_block L W i t) = False \<and> lv_pdf_file (try_block L W i t) = [] \<and>
   lv_fetched (try_block L W i t) = []"
  by (simp add: try_block_def log_def Let_def split: sum.splits option.splits)

lemma try_block_load_failed:
  "isl (w_detail W i) \<Longrightarrow> lv_pdf_url (try_block L W i t) = None"
  by (cases "w_detail W i") (simp_all add: try_block_def)

lemma new_row_upd_fields:
  "ur_title (new_row_upd L W i e) = title_raw_of i e \<and>
   ur_pdf_downloaded (new_row_upd L W i e) = ''no'' \<and>
   ur_pdf_filename (new_row_upd L W i e) = [] \<and>
   (isl (w_detail W i) \<longrightarrow> ur_pdf_link (new_row_upd L W i e) = [])"
  by (simp add: new_row_upd_def Let_def try_block_not_downloaded try_block_load_failed or_empty_def)

section \<open>Claim C1: every candidate is skipped or gets one row\<close>




section \<open>Claim C7: when pdf_downloaded is yes\<close>











section \<open>Claim C10: the title set follows the appended rows\<close>

lemma process_entry_upd_titles:
  assumes "us_existing_titles st = T \<union> (\<lambda>r. title_key (ur_title r)) ` set (us_appended st)"
    and "us_added st = length (us_appended st)"
  shows "us_existing_titles (process_entry_upd L W st i e) =
           T \<union> (\<lambda>r. title_key (ur_title r)) ` set (us_appended (process_entry_upd L W st i e)) \<and>
         us_added (process_entry_upd L W st i e) = length (us_appended (process_entry_upd L W st i e))"
  using assms new_row_upd_fields [of L W i e]
  by (cases "w_append W i") (auto simp add: process_entry_upd_def Let_def)

lemma entries_loop_upd_titles:
  assumes "us_existing_titles st = T \<union> (\<lambda>r. title_key (ur_title r)) ` set (us_appended st)"
    and "us_added st = length (us_appended st)"
  shows "us_existing_titles (entries_loop_upd L W i es st) =
           T \<union> (\<lambda>r. title_key (ur_title r)) ` set (us_appended (entries_loop_upd L W i es st)) \<and>
         us_added (entries_loop_upd L W i es st) = length (us_appended (entries_loop_upd L W i es st))"
  using assms
proof (induction es arbitrary: i st)
  case Nil
  then show ?case by simp
next
  case (Cons e es)
  from process_entry_upd_titles [OF Cons.prems, of L W i e] Cons.IH
  show ?case by simp
qed

text \<open>
  C10. In sebi_update_and_download_missing.py: when the append of a candidate's row
  raises (in \<open>writerow\<close> or in \<open>flush\<close>), the step leaves the title set, the counter and
  the list of appended rows as they were; and at the end of every run the title set is
  the set loaded at the start together with the keys of the rows whose \<open>writerow\<close> and
  \<open>flush\<close> both returned, and the counter is the number of those rows.
\<close>

theorem title_set_follows_appends:
  "(w_append W idx \<noteq> AppendOk \<longrightarrow>
      us_existing_titles (process_entry_upd L W st idx e) = us_existing_titles st \<and>
      us_added (process_entry_upd L W st idx e) = us_added st \<and>
      us_appended (process_entry_upd L W st idx e) = us_appended st) \<and>
   us_existing_titles (entries_loop_upd L W 1 es
        \<lparr>us_existing_titles = T, us_added = 0, us_appended = [], us_unflushed = [],
         us_fetched = []\<rparr>) =
     T \<union> (\<lambda>r. title_key (ur_title r)) ` set (us_appended (entries_loop_upd L W 1 es
        \<lparr>us_existing_titles = T, us_added = 0, us_appended = [], us_unflushed = [],
         us_fetched = []\<rparr>)) \<and>
   us_added (entries_loop_upd L W 1 es
        \<lparr>us_existing_titles = T, us_added = 0, us_appended = [], us_unflushed = [],
         us_fetched = []\<rparr>) =
     length (us_appended (entries_loop_upd L W 1 es
        \<lparr>us_existing_titles = T, us_added = 0, us_appended = [], us_unflushed = [],
         us_fetched = []\<rparr>))"
proof -
  have "w_append W idx \<noteq> AppendOk \<longrightarrow>
      us_existing_titles (process_entry_upd L W st idx e) = us_existing_titles st \<and>
      us_added (process_entry_upd L W st idx e) = us_added st \<and>
      us_appended (process_entry_upd L W st idx e) = us_appended st"
    by (cases "w_append W idx") (simp_all add: process_entry_upd_def Let_def)
  moreover have
    "us_existing_titles (entries_loop_upd L W 1 es
        \<lparr>us_existing_titles = T, us_added = 0, us_appended = [], us_unflushed = [],
         us_fetched = []\<rparr>) =
     T \<union> (\<lambda>r. title_key (ur_title r)) ` set (us_appended (entries_loop_upd L W 1 es
        \<lparr>us_existing_titles = T, us_added = 0, us_appended = [], us_unflushed = [],
         us_fetched = []\<rparr>)) \<and>
     us_added (entries_loop_upd L W 1 es
        \<lparr>us_existing_titles = T, us_added = 0, us_appended = [], us_unflushed = [],
         us_fetched = []\<rparr>) =
     length (us_appended (entries_loop_upd L W 1 es
        \<lparr>us_existing_titles = T, us_added = 0, us_appended = [], us_unflushed = [],
         us_fetched = []\<rparr>))"
    by (rule entries_loop_upd_titles) simp_all
  ultimately show ?thesis by blast
qed

text \<open>
  The theorem on a run whose third append raises in \<open>flush\<close>: the key of the third
  candidate is not added and the counter stays at two.
\<close>

theorem title_set_follows_appends_witness:
  "w_append W0 3 \<noteq> AppendOk \<and>
   us_existing_titles (entries_loop_upd L0 W0 1 [cand1, cand2, cand4] upd_run0) =
     {''circular c'', ''circular b''} \<and>
   us_added (entries_loop_upd L0 W0 1 [cand1, cand2, cand4] upd_run0) = 2 \<and>
   length (us_appended (entries_loop_upd L0 W0 1 [cand1, cand2, cand4] upd_run0)) = 2 \<and>
   us_unflushed (entries_loop_upd L0 W0 1 [cand1, cand2, cand4] upd_run0) =
     [new_row_upd L0 W0 3 cand4]"
proof -
  have h: "w_append W0 3 \<noteq> AppendOk" by (simp add: W0_def)
  have a: "us_appended (entries_loop_upd L0 W0 1 [cand1, cand2, cand4] upd_run0) =
      [new_row_upd L0 W0 1 cand1, new_row_upd L0 W0 2 cand2]"
    by code_simp
  have u: "us_unflushed (entries_loop_upd L0 W0 1 [cand1, cand2, cand4] upd_run0) =
     [new_row_upd L0 W0 3 cand4]"
    by code_simp
  have k: "title_key (ur_title (new_row_upd L0 W0 1 cand1)) = ''circular c''"
      "title_key (ur_title (new_row_upd L0 W0 2 cand2)) = ''circular b''"
    by code_simp+
  from title_set_follows_appends [of W0 3 L0 _ _ "[cand1, cand2, cand4]" "{}"] h a u k
  show ?thesis by (simp add: upd_run0_def)
qed

section \<open>Claim C6: filename safety\<close>

text \<open>
  C6 (as amended). For every title \<open>t\<close> (and every fallback \<open>fb\<close>, every URL file name
  \<open>n\<close>): the name \<open>safe_filename\<close> of sebi_make_two_csvs.py derives has no character
  of the forbidden class and no newline, has at most 154 characters (a base of 150 and
  the suffix) and ends with \<open>.pdf\<close> once lower-cased; the name \<open>choose_name_for_pdf\<close> of
  sebi_update_and_download_missing.py derives has no forbidden character and no
  newline, and the path the caller builds from it is \<open>pdfs/\<close> followed by that name, with
  \<open>.pdf\<close> appended or not (or \<open>pdfs.pdf\<close> for the name \<open>.\<close>), has at most 189 characters
  (the directory, a name of 180 and the suffix) and ends with \<open>.pdf\<close> once lower-cased.
\<close>

theorem filename_safety:
  "(\<forall>c\<in>set (safe_filename_csv t fb). name_char_ok c) \<and>
   length (safe_filename_csv t fb) \<le> 154 \<and>
   endswith (lower (safe_filename_csv t fb)) ''.pdf'' \<and>
   (\<forall>c\<in>set (choose_name_for_pdf n t). name_char_ok c) \<and>
   (dest_path_for n t = ''pdfs.pdf'' \<or>
    dest_path_for n t = ''pdfs/'' @ choose_name_for_pdf n t \<or>
    dest_path_for n t = ''pdfs/'' @ choose_name_for_pdf n t @ ''.pdf'') \<and>
   length (dest_path_for n t) \<le> 189 \<and>
   endswith (lower (dest_path_for n t)) ''.pdf''"
  using safe_filename_csv_chars [of _ t fb] safe_filename_csv_length [of t fb]
    safe_filename_csv_suffix [of t fb] choose_name_chars [of _ n t] dest_path_for_props [of n t]
  by blast

text \<open>The theorem at the title \<open>Circular: A/B\<close> and the URL file name \<open>a?b.PDF\<close>.\<close>

theorem filename_safety_witness:
  "safe_filename_csv ''Circular: A/B'' ''document'' = ''Circular_ A_B.pdf'' \<and>
   CHR ''_'' \<in> set (safe_filename_csv ''Circular: A/B'' ''document'') \<and>
   name_char_ok (CHR ''_'') \<and>
   length (safe_filename_csv ''Circular: A/B'' ''document'') \<le> 154 \<and>
   endswith (lower (safe_filename_csv ''Circular: A/B'' ''document'')) ''.pdf'' \<and>
   choose_name_for_pdf ''a?b.PDF'' ''Circular: A/B'' = ''a_b.PDF'' \<and>
   name_char_ok (CHR ''_'') \<and>
   dest_path_for ''a?b.PDF'' ''Circular: A/B'' = ''pdfs/a_b.PDF'' \<and>
   length (dest_path_for ''a?b.PDF'' ''Circular: A/B'') \<le> 189 \<and>
   endswith (lower (dest_path_for ''a?b.PDF'' ''Circular: A/B'')) ''.pdf''"
proof -
  have e1: "safe_filename_csv ''Circular: A/B'' ''document'' = ''Circular_ A_B.pdf''"
    by code_simp
  have e2: "choose_name_for_pdf ''a?b.PDF'' ''Circular: A/B'' = ''a_b.PDF''"
    by code_simp
  have e3: "dest_path_for ''a?b.PDF'' ''Circular: A/B'' = ''pdfs/a_b.PDF''"
    by code_simp
  have m: "CHR ''_'' \<in> set (safe_filename_csv ''Circular: A/B'' ''document'')"
    unfolding e1 by simp
  from filename_safety [of "''Circular: A/B''" "''document''" "''a?b.PDF''"] m e1 e2 e3
  show ?thesis by blast
qed

text \<open>
  C6 as stated fails: a title that ends in \<open>.PDF\<close> keeps its upper-case suffix, so the
  derived name does not end with \<open>.pdf\<close>; and in the download-capable script a title of
  180 characters gives a file name of 184 characters, above the bound of 180.
\<close>

theorem filename_claim_counterexample:
  "\<not> endswith (safe_filename_csv ''REPORT.PDF'' ''document'') ''.pdf'' \<and>
   \<not> length (choose_name_for_pdf [] (replicate 180 (CHR ''a''))) \<le> 180 \<and>
   dest_path_for [] (replicate 180 (CHR ''a'')) = ''pdfs/'' @ replicate 180 (CHR ''a'') @ ''.pdf''"
  by code_simp

end
